theory Spec2Isabelle
  imports Main "HOL-Library.AList"
begin

section \<open>Data model\<close>

text \<open>
  The engine is the class \<open>TicTacToeGame\<close> (TicTacToeGame.ts), the command router is the
  class \<open>TicTacToeGameArea\<close> (TicTacToeGameArea.ts). Private methods of the source start
  with an underscore (\<open>_join\<close>, \<open>_moveIsValid\<close>); here they carry the prefix \<open>priv_\<close>.
  The fields of \<open>this.state\<close> carry the prefix \<open>state_\<close>.
\<close>

text \<open>
  Modelled from the spec: the type \<open>TicTacToeGridPosition\<close> of types/CoveyTownSocket is not
  part of the sources at hand; the spec gives row and column the values 0, 1 and 2.
\<close>

datatype TicTacToeGridPosition = P0 | P1 | P2

fun pos_num :: "TicTacToeGridPosition \<Rightarrow> nat" where
  "pos_num P0 = 0"
| "pos_num P1 = 1"
| "pos_num P2 = 2"

datatype GamePiece = PieceX | PieceO

datatype GameStatus = WAITING_TO_START | IN_PROGRESS | OVER

record TicTacToeMove =
  row :: TicTacToeGridPosition
  col :: TicTacToeGridPosition
  gamePiece :: GamePiece

type_synonym PlayerID = string

type_synonym GameInstanceID = string

text \<open>
  The code reads two fields of a player, \<open>id\<close> and \<open>userName\<close>. It finds a player in
  \<open>this._players\<close> by object identity (\<open>indexOf\<close>); here a player object is identified
  with the pair of its fields.
\<close>

record Player =
  player_id :: PlayerID
  userName :: string

text \<open>
  A move is a JavaScript object. \<open>applyMove\<close> writes the field \<open>gamePiece\<close> of the object
  it is handed and then stores that very object in \<open>state.moves\<close>, so move objects live in
  a store and the log holds their addresses.
\<close>

type_synonym ref = nat

type_synonym heap = "ref \<Rightarrow> TicTacToeMove"

record GameMove =
  playerID :: PlayerID
  gameID :: GameInstanceID
  move :: ref

record TicTacToeGame =
  game_id :: GameInstanceID
  players :: "Player list"
  state_moves :: "ref list"
  state_status :: GameStatus
  state_x :: "PlayerID option"
  state_o :: "PlayerID option"
  state_winner :: "PlayerID option"

text \<open>
  The messages are the constants exported by lib/InvalidParametersError. A read of a
  property of \<open>undefined\<close> throws a \<open>TypeError\<close>.
\<close>

datatype message =
    BOARD_POSITION_NOT_EMPTY_MESSAGE
  | GAME_FULL_MESSAGE
  | GAME_NOT_IN_PROGRESS_MESSAGE
  | MOVE_NOT_YOUR_TURN_MESSAGE
  | PLAYER_ALREADY_IN_GAME_MESSAGE
  | PLAYER_NOT_IN_GAME_MESSAGE
  | GAME_ID_MISSMATCH_MESSAGE
  | INVALID_COMMAND_MESSAGE

datatype error = InvalidParametersError message | TypeError

text \<open>The constructor: an empty log, status \<open>WAITING_TO_START\<close>; the id is drawn by the base class.\<close>

definition TicTacToeGame_new :: "GameInstanceID \<Rightarrow> TicTacToeGame" where
  "TicTacToeGame_new gid =
     \<lparr>game_id = gid, players = [], state_moves = [], state_status = WAITING_TO_START,
      state_x = None, state_o = None, state_winner = None\<rparr>"

text \<open>The log as the code reads it: the objects behind \<open>this.state.moves\<close>.\<close>

definition moveLog :: "heap \<Rightarrow> TicTacToeGame \<Rightarrow> TicTacToeMove list" where
  "moveLog h g = map h (state_moves g)"

definition cell :: "TicTacToeMove \<Rightarrow> TicTacToeGridPosition \<times> TicTacToeGridPosition" where
  "cell m = (row m, col m)"

section \<open>The engine\<close>

subsection \<open>Move validation\<close>

text \<open>
  \<open>_moveIsValid\<close> throws or returns \<open>true\<close>. The \<open>forEach\<close> throws at the first recorded
  move on the target cell; every such throw carries the same message.
\<close>

definition priv_moveIsValid :: "heap \<Rightarrow> TicTacToeGame \<Rightarrow> GameMove \<Rightarrow> error + bool" where
  "priv_moveIsValid h g gm =
     (let mv = h (move gm); ms = moveLog h g in
      if state_status g \<noteq> IN_PROGRESS then
        Inl (InvalidParametersError GAME_NOT_IN_PROGRESS_MESSAGE)
      else if (\<exists>m \<in> set ms. col m = col mv \<and> row m = row mv) then
        Inl (InvalidParametersError BOARD_POSITION_NOT_EMPTY_MESSAGE)
      else if length ms = 0 \<and> gamePiece mv = PieceO then
        Inl (InvalidParametersError MOVE_NOT_YOUR_TURN_MESSAGE)
      else if length ms > 0 \<and> gamePiece mv = gamePiece (ms ! (length ms - 1)) then
        Inl (InvalidParametersError MOVE_NOT_YOUR_TURN_MESSAGE)
      else Inr True)"

subsection \<open>Win detection\<close>

text \<open>
  The three checks walk the log once, pushing the mover's piece onto one array per row
  (column, diagonal) and returning as soon as an array has length 3.
\<close>

fun horizontal_loop :: "TicTacToeMove list \<Rightarrow> GamePiece \<Rightarrow> GamePiece list list \<Rightarrow> bool" where
  "horizontal_loop [] p board = False"
| "horizontal_loop (m # ms) p board =
     (let r = pos_num (row m);
          board' = (if gamePiece m = p then board[r := board ! r @ [p]] else board)
      in if length (board' ! r) = 3 then True else horizontal_loop ms p board')"

fun vertical_loop :: "TicTacToeMove list \<Rightarrow> GamePiece \<Rightarrow> GamePiece list list \<Rightarrow> bool" where
  "vertical_loop [] p board = False"
| "vertical_loop (m # ms) p board =
     (let c = pos_num (col m);
          board' = (if gamePiece m = p then board[c := board ! c @ [p]] else board)
      in if length (board' ! c) = 3 then True else vertical_loop ms p board')"

fun diagonal_loop :: "TicTacToeMove list \<Rightarrow> GamePiece \<Rightarrow> GamePiece list list \<Rightarrow> bool" where
  "diagonal_loop [] p diagonals = False"
| "diagonal_loop (m # ms) p diagonals =
     (if gamePiece m = p then
        (let d1 = (if col m = row m then diagonals[0 := diagonals ! 0 @ [p]] else diagonals)
         in if col m = row m \<and> length (d1 ! 0) = 3 then True
            else
              (let d2 = (if pos_num (col m) + pos_num (row m) = 2
                         then d1[1 := d1 ! 1 @ [p]] else d1)
               in if pos_num (col m) + pos_num (row m) = 2 \<and> length (d2 ! 1) = 3 then True
                  else diagonal_loop ms p d2))
      else diagonal_loop ms p diagonals)"

definition priv_checkForHorizontalWins :: "heap \<Rightarrow> TicTacToeGame \<Rightarrow> GameMove \<Rightarrow> bool" where
  "priv_checkForHorizontalWins h g gm =
     horizontal_loop (moveLog h g) (gamePiece (h (move gm))) [[], [], []]"

definition priv_checkForVerticalWins :: "heap \<Rightarrow> TicTacToeGame \<Rightarrow> GameMove \<Rightarrow> bool" where
  "priv_checkForVerticalWins h g gm =
     vertical_loop (moveLog h g) (gamePiece (h (move gm))) [[], [], []]"

definition priv_checkForDiagonalWins :: "heap \<Rightarrow> TicTacToeGame \<Rightarrow> GameMove \<Rightarrow> bool" where
  "priv_checkForDiagonalWins h g gm =
     diagonal_loop (moveLog h g) (gamePiece (h (move gm))) [[], []]"

definition priv_playerHasWon :: "heap \<Rightarrow> TicTacToeGame \<Rightarrow> GameMove \<Rightarrow> bool" where
  "priv_playerHasWon h g gm =
     (priv_checkForHorizontalWins h g gm \<or> priv_checkForVerticalWins h g gm
      \<or> priv_checkForDiagonalWins h g gm)"

subsection \<open>applyMove\<close>

text \<open>
  The result of a call is what it threw (\<open>Inl\<close>) or that it returned (\<open>Inr ()\<close>), with
  the store and the game as the call left them. The piece is written into the caller's
  move object before the move is validated.
\<close>

definition deducedPiece :: "TicTacToeGame \<Rightarrow> GameMove \<Rightarrow> GamePiece" where
  "deducedPiece g gm = (if state_x g = Some (playerID gm) then PieceX else PieceO)"

definition applyMove ::
  "heap \<Rightarrow> TicTacToeGame \<Rightarrow> GameMove \<Rightarrow> (error + unit) \<times> heap \<times> TicTacToeGame" where
  "applyMove h g gm =
     (let h' = h(move gm := (h (move gm))\<lparr>gamePiece := deducedPiece g gm\<rparr>) in
      case priv_moveIsValid h' g gm of
        Inl e \<Rightarrow> (Inl e, h', g)
      | Inr valid \<Rightarrow>
          if valid then
            (let g1 = g\<lparr>state_moves := state_moves g @ [move gm]\<rparr> in
             if priv_playerHasWon h' g1 gm then
               (Inr (), h', g1\<lparr>state_status := OVER, state_winner := Some (playerID gm)\<rparr>)
             else if length (state_moves g1) = 9 then
               (Inr (), h', g1\<lparr>state_status := OVER, state_winner := None\<rparr>)
             else (Inr (), h', g1))
          else (Inr (), h', g))"

subsection \<open>Joining and leaving\<close>

definition priv_join :: "TicTacToeGame \<Rightarrow> Player \<Rightarrow> (error + unit) \<times> TicTacToeGame" where
  "priv_join g player =
     (if player \<in> set (players g) then
        (Inl (InvalidParametersError PLAYER_ALREADY_IN_GAME_MESSAGE), g)
      else if length (players g) = 2 then
        (Inl (InvalidParametersError GAME_FULL_MESSAGE), g)
      else if length (players g) < 2 then
        (if length (players g) = 0 then
           (Inr (), g\<lparr>state_x := Some (player_id player)\<rparr>)
         else if length (players g) = 1 then
           (Inr (), g\<lparr>state_o := Some (player_id player), state_status := IN_PROGRESS\<rparr>)
         else (Inr (), g))
      else (Inr (), g))"

text \<open>
  In \<open>_leave\<close> the status is set to \<open>OVER\<close> before the winner is computed; reading
  \<open>this._players[1].id\<close> with fewer than two players would throw after that write.
\<close>

definition priv_leave :: "TicTacToeGame \<Rightarrow> Player \<Rightarrow> (error + unit) \<times> TicTacToeGame" where
  "priv_leave g player =
     (if player \<notin> set (players g) then
        (Inl (InvalidParametersError PLAYER_NOT_IN_GAME_MESSAGE), g)
      else if state_status g = IN_PROGRESS then
        (let g1 = g\<lparr>state_status := OVER\<rparr> in
         case players g of
           [] \<Rightarrow> (Inl TypeError, g1)
         | p0 # rest \<Rightarrow>
             if player_id p0 = player_id player then
               (case rest of
                  [] \<Rightarrow> (Inl TypeError, g1)
                | p1 # _ \<Rightarrow> (Inr (), g1\<lparr>state_winner := Some (player_id p1)\<rparr>))
             else (Inr (), g1\<lparr>state_winner := Some (player_id p0)\<rparr>))
      else (Inr (), g\<lparr>state_status := WAITING_TO_START\<rparr>))"

text \<open>
  Modelled from the spec: the public methods \<open>join\<close> and \<open>leave\<close> belong to the base class
  \<open>Game\<close> (Game.ts), which is not part of the sources at hand. The spec has the game
  "mutated by join/leave/move calls" with marks assigned "by array position (first two
  joiners)": \<open>join\<close> runs \<open>_join\<close> and, when it did not throw, appends the player to
  \<open>_players\<close>; \<open>leave\<close> runs \<open>_leave\<close> and, when it did not throw, removes the player from
  \<open>_players\<close>.
\<close>

definition join :: "TicTacToeGame \<Rightarrow> Player \<Rightarrow> (error + unit) \<times> TicTacToeGame" where
  "join g player =
     (case priv_join g player of
        (Inl e, g') \<Rightarrow> (Inl e, g')
      | (Inr u, g') \<Rightarrow> (Inr u, g'\<lparr>players := players g' @ [player]\<rparr>))"

definition leave :: "TicTacToeGame \<Rightarrow> Player \<Rightarrow> (error + unit) \<times> TicTacToeGame" where
  "leave g player =
     (case priv_leave g player of
        (Inl e, g') \<Rightarrow> (Inl e, g')
      | (Inr u, g') \<Rightarrow>
          (Inr u, g'\<lparr>players := filter (\<lambda>p. player_id p \<noteq> player_id player) (players g')\<rparr>))"

subsection \<open>Runs of the engine\<close>

text \<open>
  A caller issues \<open>join\<close>, \<open>leave\<close> and \<open>applyMove\<close> in any order and catches what they
  throw; the game object stays as the call left it.
\<close>

datatype engine_call = Join Player | Leave Player | ApplyMove GameMove

fun engine_step :: "heap \<times> TicTacToeGame \<Rightarrow> engine_call \<Rightarrow> heap \<times> TicTacToeGame" where
  "engine_step (h, g) (Join p) = (h, snd (join g p))"
| "engine_step (h, g) (Leave p) = (h, snd (leave g p))"
| "engine_step (h, g) (ApplyMove gm) = snd (applyMove h g gm)"

definition engine_run :: "heap \<times> TicTacToeGame \<Rightarrow> engine_call list \<Rightarrow> heap \<times> TicTacToeGame" where
  "engine_run s calls = foldl engine_step s calls"

section \<open>The command router\<close>

text \<open>
  A record of the ledger. The source builds \<open>scores\<close> as an object literal with two
  computed keys: the second key replaces the first when the two names are equal.
\<close>

record GameResult =
  result_gameID :: GameInstanceID
  scores :: "(string \<times> nat) list"

definition scoresLiteral :: "string \<Rightarrow> nat \<Rightarrow> string \<Rightarrow> nat \<Rightarrow> (string \<times> nat) list" where
  "scoresLiteral k1 v1 k2 v2 = AList.update k2 v2 (AList.update k1 v1 [])"

text \<open>
  The fields \<open>_game\<close>, \<open>_history\<close> and \<open>occupants\<close> are inherited from the area classes:
  the current game if any, the ledger, and the players standing in the area.
\<close>

record TicTacToeGameArea =
  area_game :: "TicTacToeGame option"
  history :: "GameResult list"
  occupants :: "Player list"

text \<open>
  A command carries its \<open>type\<close> tag; a command of any other kind than the three handled
  here is kept with its tag only.
\<close>

datatype command =
    JoinGameCommand
  | LeaveGameCommand GameInstanceID
  | GameMoveCommand GameInstanceID ref
  | OtherCommand string

datatype response = JoinGameResponse GameInstanceID | NoResponse

definition bindE :: "error + 'a \<Rightarrow> ('a \<Rightarrow> error + 'b) \<Rightarrow> error + 'b" where
  "bindE r f = (case r of Inl e \<Rightarrow> Inl e | Inr v \<Rightarrow> f v)"

text \<open>\<open>this.occupants[i]\<close> followed by a property read: a \<open>TypeError\<close> out of range.\<close>

definition occupantAt :: "Player list \<Rightarrow> nat \<Rightarrow> error + Player" where
  "occupantAt occ i = (if i < length occ then Inr (occ ! i) else Inl TypeError)"

text \<open>
  \<open>_handleJoinCommand\<close>: \<open>nid\<close> is the id the constructor draws when a game is created.
  \<open>_emitAreaChanged\<close> notifies observers and leaves the area as it is.
\<close>

definition priv_handleJoinCommand ::
  "GameInstanceID \<Rightarrow> heap \<Rightarrow> TicTacToeGameArea \<Rightarrow> Player
     \<Rightarrow> (error + response) \<times> heap \<times> TicTacToeGameArea" where
  "priv_handleJoinCommand nid h a player =
     (let g = (case area_game a of None \<Rightarrow> TicTacToeGame_new nid | Some g0 \<Rightarrow> g0) in
      case join g player of
        (Inl e, g') \<Rightarrow> (Inl e, h, a\<lparr>area_game := Some g'\<rparr>)
      | (Inr u, g') \<Rightarrow> (Inr (JoinGameResponse (game_id g')), h, a\<lparr>area_game := Some g'\<rparr>))"

definition leaveScores :: "Player list \<Rightarrow> PlayerID option \<Rightarrow> error + (string \<times> nat) list" where
  "leaveScores occ w =
     bindE (bindE (occupantAt occ 0) (\<lambda>o0.
              if Some (player_id o0) = w then Inr (userName o0)
              else bindE (occupantAt occ 1) (\<lambda>o1. Inr (userName o1)))) (\<lambda>k1.
     bindE (bindE (occupantAt occ 0) (\<lambda>o0.
              if Some (player_id o0) \<noteq> w then Inr (userName o0)
              else bindE (occupantAt occ 1) (\<lambda>o1. Inr (userName o1)))) (\<lambda>k2.
     Inr (scoresLiteral k1 1 k2 0)))"

definition priv_handleLeaveCommand ::
  "heap \<Rightarrow> TicTacToeGameArea \<Rightarrow> GameInstanceID \<Rightarrow> Player
     \<Rightarrow> (error + response) \<times> heap \<times> TicTacToeGameArea" where
  "priv_handleLeaveCommand h a gid player =
     (case area_game a of
        None \<Rightarrow> (Inl (InvalidParametersError GAME_NOT_IN_PROGRESS_MESSAGE), h, a)
      | Some g \<Rightarrow>
          if gid \<noteq> game_id g then (Inl (InvalidParametersError GAME_ID_MISSMATCH_MESSAGE), h, a)
          else
            (case leave g player of
               (Inl e, g') \<Rightarrow> (Inl e, h, a\<lparr>area_game := Some g'\<rparr>)
             | (Inr u, g') \<Rightarrow>
                 (let a1 = a\<lparr>area_game := Some g'\<rparr> in
                  if state_status g' = OVER then
                    (case leaveScores (occupants a1) (state_winner g') of
                       Inl e \<Rightarrow> (Inl e, h, a1)
                     | Inr sc \<Rightarrow>
                         (Inr NoResponse, h,
                          a1\<lparr>history := history a1 @ [\<lparr>result_gameID = game_id g', scores = sc\<rparr>]\<rparr>))
                  else (Inr NoResponse, h, a1))))"

definition moveScores ::
  "Player list \<Rightarrow> PlayerID option \<Rightarrow> Player \<Rightarrow> error + (string \<times> nat) list" where
  "moveScores occ w player =
     (if w \<noteq> None then
        bindE (bindE (occupantAt occ 0) (\<lambda>o0.
                 if userName o0 \<noteq> userName player then Inr (userName o0)
                 else bindE (occupantAt occ 1) (\<lambda>o1. Inr (userName o1)))) (\<lambda>k2.
        Inr (scoresLiteral (userName player) 1 k2 0))
      else
        bindE (occupantAt occ 0) (\<lambda>o0.
        bindE (occupantAt occ 1) (\<lambda>o1.
        Inr (scoresLiteral (userName o0) 0 (userName o1) 0))))"

definition priv_handleMoveCommand ::
  "heap \<Rightarrow> TicTacToeGameArea \<Rightarrow> GameInstanceID \<Rightarrow> ref \<Rightarrow> Player
     \<Rightarrow> (error + response) \<times> heap \<times> TicTacToeGameArea" where
  "priv_handleMoveCommand h a gid mv player =
     (case area_game a of
        None \<Rightarrow> (Inl (InvalidParametersError GAME_NOT_IN_PROGRESS_MESSAGE), h, a)
      | Some g \<Rightarrow>
          if game_id g \<noteq> gid then (Inl (InvalidParametersError GAME_ID_MISSMATCH_MESSAGE), h, a)
          else
            (let gameMove = \<lparr>playerID = player_id player, gameID = gid, move = mv\<rparr> in
             case applyMove h g gameMove of
               (Inl e, h', g') \<Rightarrow> (Inl e, h', a\<lparr>area_game := Some g'\<rparr>)
             | (Inr u, h', g') \<Rightarrow>
                 (let a1 = a\<lparr>area_game := Some g'\<rparr> in
                  if state_status g' = OVER then
                    (case moveScores (occupants a1) (state_winner g') player of
                       Inl e \<Rightarrow> (Inl e, h', a1)
                     | Inr sc \<Rightarrow>
                         (Inr NoResponse, h',
                          a1\<lparr>history := history a1 @ [\<lparr>result_gameID = game_id g', scores = sc\<rparr>]\<rparr>))
                  else (Inr NoResponse, h', a1))))"

definition handleCommand ::
  "GameInstanceID \<Rightarrow> heap \<Rightarrow> TicTacToeGameArea \<Rightarrow> command \<Rightarrow> Player
     \<Rightarrow> (error + response) \<times> heap \<times> TicTacToeGameArea" where
  "handleCommand nid h a cmd player =
     (case cmd of
        JoinGameCommand \<Rightarrow> priv_handleJoinCommand nid h a player
      | LeaveGameCommand gid \<Rightarrow> priv_handleLeaveCommand h a gid player
      | GameMoveCommand gid mv \<Rightarrow> priv_handleMoveCommand h a gid mv player
      | OtherCommand t \<Rightarrow> (Inl (InvalidParametersError INVALID_COMMAND_MESSAGE), h, a))"

text \<open>
  Runs of the router: each command comes with the player who sent it; the caller catches
  what is thrown. \<open>nid\<close> is the id given to a game the router creates.
\<close>

fun area_step ::
  "GameInstanceID \<Rightarrow> heap \<times> TicTacToeGameArea \<Rightarrow> command \<times> Player \<Rightarrow> heap \<times> TicTacToeGameArea" where
  "area_step nid (h, a) (cmd, p) = snd (handleCommand nid h a cmd p)"

definition area_run ::
  "GameInstanceID \<Rightarrow> heap \<times> TicTacToeGameArea \<Rightarrow> (command \<times> Player) list
     \<Rightarrow> heap \<times> TicTacToeGameArea" where
  "area_run nid s cmds = foldl (area_step nid) s cmds"

section \<open>Notions of the specification\<close>

text \<open>
  The eight lines of the board, as cells (row, column): three rows, three columns, the
  main diagonal (row = column) and the anti-diagonal (row + column = 2). A line is
  complete for a mark when each of its cells is held by a recorded move of that mark.
\<close>

definition winningLines :: "(TicTacToeGridPosition \<times> TicTacToeGridPosition) list list" where
  "winningLines =
     [[(P0, P0), (P0, P1), (P0, P2)], [(P1, P0), (P1, P1), (P1, P2)],
      [(P2, P0), (P2, P1), (P2, P2)],
      [(P0, P0), (P1, P0), (P2, P0)], [(P0, P1), (P1, P1), (P2, P1)],
      [(P0, P2), (P1, P2), (P2, P2)],
      [(P0, P0), (P1, P1), (P2, P2)], [(P0, P2), (P1, P1), (P2, P0)]]"

definition lineComplete ::
  "TicTacToeMove list \<Rightarrow> GamePiece \<Rightarrow> (TicTacToeGridPosition \<times> TicTacToeGridPosition) list \<Rightarrow> bool" where
  "lineComplete ms p line = (\<forall>c \<in> set line. \<exists>m \<in> set ms. cell m = c \<and> gamePiece m = p)"

definition hasLine :: "TicTacToeMove list \<Rightarrow> GamePiece \<Rightarrow> bool" where
  "hasLine ms p = (\<exists>line \<in> set winningLines. lineComplete ms p line)"

text \<open>No two recorded moves on one cell.\<close>

definition distinctCells :: "TicTacToeMove list \<Rightarrow> bool" where
  "distinctCells ms = distinct (map cell ms)"

text \<open>The mark whose turn it is: X on an empty log, else the opposite of the last recorded mark.\<close>

definition opposite :: "GamePiece \<Rightarrow> GamePiece" where
  "opposite p = (case p of PieceX \<Rightarrow> PieceO | PieceO \<Rightarrow> PieceX)"

definition markToMove :: "TicTacToeMove list \<Rightarrow> GamePiece" where
  "markToMove ms = (if ms = [] then PieceX else opposite (gamePiece (last ms)))"

definition cellOccupied :: "TicTacToeMove list \<Rightarrow> TicTacToeMove \<Rightarrow> bool" where
  "cellOccupied ms mv = (cell mv \<in> set (map cell ms))"

section \<open>Auxiliary notions for the proofs\<close>

text \<open>
  The row check and the column check are one loop over a different coordinate; the
  counts say how many recorded moves of a mark lie on a row, column, diagonal or line.
\<close>

definition keyCount ::
  "(TicTacToeMove \<Rightarrow> TicTacToeGridPosition) \<Rightarrow> TicTacToeMove list \<Rightarrow> GamePiece
     \<Rightarrow> TicTacToeGridPosition \<Rightarrow> nat" where
  "keyCount key ms p r = length (filter (\<lambda>m. gamePiece m = p \<and> key m = r) ms)"

fun bucket_loop ::
  "(TicTacToeMove \<Rightarrow> TicTacToeGridPosition) \<Rightarrow> TicTacToeMove list \<Rightarrow> GamePiece
     \<Rightarrow> GamePiece list list \<Rightarrow> bool" where
  "bucket_loop key [] p board = False"
| "bucket_loop key (m # ms) p board =
     (let r = pos_num (key m);
          board' = (if gamePiece m = p then board[r := board ! r @ [p]] else board)
      in if length (board' ! r) = 3 then True else bucket_loop key ms p board')"

definition diagCount :: "TicTacToeMove list \<Rightarrow> GamePiece \<Rightarrow> nat" where
  "diagCount ms p = length (filter (\<lambda>m. gamePiece m = p \<and> col m = row m) ms)"

definition antiCount :: "TicTacToeMove list \<Rightarrow> GamePiece \<Rightarrow> nat" where
  "antiCount ms p =
     length (filter (\<lambda>m. gamePiece m = p \<and> pos_num (col m) + pos_num (row m) = 2) ms)"

definition lineCount ::
  "TicTacToeMove list \<Rightarrow> GamePiece \<Rightarrow> (TicTacToeGridPosition \<times> TicTacToeGridPosition) list \<Rightarrow> nat" where
  "lineCount ms p line = length (filter (\<lambda>m. gamePiece m = p \<and> cell m \<in> set line) ms)"

text \<open>
  What holds of the seats in every state the engine reaches: at most two players are
  in the game, and exactly two while the status is \<open>IN_PROGRESS\<close>.
\<close>

definition seatsOk :: "TicTacToeGame \<Rightarrow> bool" where
  "seatsOk g = (length (players g) \<le> 2
                \<and> (state_status g = IN_PROGRESS \<longrightarrow> length (players g) = 2))"

section \<open>Example inputs\<close>

text \<open>
  A store with one move object per address: address \<open>n\<close> holds a move on row
  \<open>(n mod 9) div 3\<close>, column \<open>n mod 3\<close>, so addresses 0 to 8 are the nine cells and
  address \<open>n + 9\<close> is another object on the cell of address \<open>n\<close>. Three players.
\<close>

definition boardHeap :: heap where
  "boardHeap n =
     \<lparr>row = (if n mod 9 < 3 then P0 else if n mod 9 < 6 then P1 else P2),
      col = (if n mod 3 = 0 then P0 else if n mod 3 = 1 then P1 else P2),
      gamePiece = PieceX\<rparr>"

definition alice :: Player where
  "alice = \<lparr>player_id = ''id-alice'', userName = ''alice''\<rparr>"

definition bob :: Player where
  "bob = \<lparr>player_id = ''id-bob'', userName = ''bob''\<rparr>"

definition carol :: Player where
  "carol = \<lparr>player_id = ''id-carol'', userName = ''carol''\<rparr>"

definition moveBy :: "Player \<Rightarrow> ref \<Rightarrow> engine_call" where
  "moveBy p r = ApplyMove \<lparr>playerID = player_id p, gameID = ''game-1'', move = r\<rparr>"

definition rowZeroRun :: "engine_call list" where
  "rowZeroRun = [Join alice, Join bob, moveBy alice 0, moveBy bob 4, moveBy alice 1, moveBy bob 8,
                 moveBy alice 2]"

text \<open>
  The state before any call, and the state of the example run before its last move:
  X holds (0,0) and (0,1), O holds (1,1) and (2,2), and X is to move.
\<close>

definition startState :: "heap \<times> TicTacToeGame" where
  "startState = (boardHeap, TicTacToeGame_new ''game-1'')"

definition rowZeroState :: "heap \<times> TicTacToeGame" where
  "rowZeroState = engine_run startState (butlast rowZeroRun)"

definition moveOf :: "Player \<Rightarrow> ref \<Rightarrow> GameMove" where
  "moveOf p r = \<lparr>playerID = player_id p, gameID = ''game-1'', move = r\<rparr>"

text \<open>
  A run in which carol, who never joined, moves whenever it is O's turn; in the state it
  reaches O holds (1,1) and (0,2) and is to move.
\<close>

definition foreignRun :: "engine_call list" where
  "foreignRun = [Join alice, Join bob, moveBy alice 0, moveBy carol 4, moveBy alice 1,
                 moveBy carol 2, moveBy alice 3]"

definition foreignState :: "heap \<times> TicTacToeGame" where
  "foreignState = engine_run startState foreignRun"

text \<open>A run that X wins on column 0 with its fifth move, and a run of one accepted move.\<close>

definition colZeroRun :: "engine_call list" where
  "colZeroRun = [Join alice, Join bob, moveBy alice 0, moveBy bob 8, moveBy alice 3, moveBy bob 7,
                 moveBy alice 6]"

definition oneMoveState :: "heap \<times> TicTacToeGame" where
  "oneMoveState = engine_run startState [Join alice, Join bob, moveBy alice 0]"

text \<open>
  An area in which carol stands as a spectator, having entered before the two players,
  and an area with the two players only.
\<close>

definition spectatorArea :: "heap \<times> TicTacToeGameArea" where
  "spectatorArea = (boardHeap, \<lparr>area_game = None, history = [], occupants = [carol, alice, bob]\<rparr>)"

definition playersArea :: "heap \<times> TicTacToeGameArea" where
  "playersArea = (boardHeap, \<lparr>area_game = None, history = [], occupants = [alice, bob]\<rparr>)"

definition bothJoin :: "(command \<times> Player) list" where
  "bothJoin = [(JoinGameCommand, alice), (JoinGameCommand, bob)]"

text \<open>The moves of the run that X wins on column 0, as commands to the router.\<close>

definition colZeroCommands :: "(command \<times> Player) list" where
  "colZeroCommands =
     [(GameMoveCommand ''game-1'' 0, alice), (GameMoveCommand ''game-1'' 8, bob),
      (GameMoveCommand ''game-1'' 3, alice), (GameMoveCommand ''game-1'' 7, bob),
      (GameMoveCommand ''game-1'' 6, alice)]"


definition reseatedState :: "heap \<times> TicTacToeGame" where
  "reseatedState = engine_run startState [Join alice, Join bob, Leave alice, Join carol]"

section \<open>Facts about the store and the log\<close>

lemma cell_piece_update: "cell (m\<lparr>gamePiece := p\<rparr>) = cell m"
  by (simp add: cell_def)

lemma cells_after_piece_write:
  "map cell (moveLog (h(r := (h r)\<lparr>gamePiece := p\<rparr>)) g) = map cell (moveLog h g)"
  by (simp add: moveLog_def cell_def)

lemma moveLog_other_ref: "r \<notin> set (state_moves g) \<Longrightarrow> moveLog (h(r := v)) g = moveLog h g"
  by (auto simp: moveLog_def)

lemma logged_ref_occupied: "r \<in> set (state_moves g) \<Longrightarrow> cellOccupied (moveLog h g) (h r)"
  by (auto simp: cellOccupied_def moveLog_def)

lemma occupied_iff:
  "(\<exists>m \<in> set ms. col m = col mv \<and> row m = row mv) = cellOccupied ms mv"
  by (induction ms) (auto simp: cellOccupied_def cell_def)

lemma cellOccupied_after_piece_write:
  "cellOccupied (moveLog (h(r := (h r)\<lparr>gamePiece := p\<rparr>)) g) ((h r)\<lparr>gamePiece := p\<rparr>)
     = cellOccupied (moveLog h g) (h r)"
  by (simp add: cellOccupied_def cells_after_piece_write cell_piece_update)

lemma turn_check_iff:
  "((length ms = 0 \<and> p = PieceO) \<or> (length ms > 0 \<and> p = gamePiece (ms ! (length ms - 1))))
     = (p \<noteq> markToMove ms)"
  by (cases p; cases "gamePiece (last ms)"; cases ms rule: rev_cases)
     (auto simp: markToMove_def opposite_def last_conv_nth)

lemma priv_moveIsValid_char:
  "priv_moveIsValid h g gm =
     (if state_status g \<noteq> IN_PROGRESS then Inl (InvalidParametersError GAME_NOT_IN_PROGRESS_MESSAGE)
      else if cellOccupied (moveLog h g) (h (move gm)) then
        Inl (InvalidParametersError BOARD_POSITION_NOT_EMPTY_MESSAGE)
      else if gamePiece (h (move gm)) \<noteq> markToMove (moveLog h g) then
        Inl (InvalidParametersError MOVE_NOT_YOUR_TURN_MESSAGE)
      else Inr True)"
  using turn_check_iff [of "moveLog h g" "gamePiece (h (move gm))"]
  by (auto simp: priv_moveIsValid_def Let_def occupied_iff)

lemma applyMove_outcome:
  "fst (applyMove h g gm) =
     (if state_status g \<noteq> IN_PROGRESS then Inl (InvalidParametersError GAME_NOT_IN_PROGRESS_MESSAGE)
      else if cellOccupied (moveLog h g) (h (move gm)) then
        Inl (InvalidParametersError BOARD_POSITION_NOT_EMPTY_MESSAGE)
      else if deducedPiece g gm \<noteq> markToMove (moveLog h g) then
        Inl (InvalidParametersError MOVE_NOT_YOUR_TURN_MESSAGE)
      else Inr ())"
proof -
  let ?h' = "h(move gm := (h (move gm))\<lparr>gamePiece := deducedPiece g gm\<rparr>)"
  have occ: "cellOccupied (moveLog ?h' g) (?h' (move gm)) = cellOccupied (moveLog h g) (h (move gm))"
    using cellOccupied_after_piece_write [of h "move gm" "deducedPiece g gm" g] by simp
  have log: "\<not> cellOccupied (moveLog h g) (h (move gm)) \<Longrightarrow> moveLog ?h' g = moveLog h g"
    using logged_ref_occupied [of "move gm" g h] moveLog_other_ref [of "move gm" g h] by blast
  have piece: "gamePiece (?h' (move gm)) = deducedPiece g gm" by simp
  show ?thesis
    unfolding applyMove_def Let_def priv_moveIsValid_char [of ?h' g gm] occ piece
    using log by (auto simp: Let_def)
qed

section \<open>Win detection counts complete lines\<close>

lemma pos_num_less3: "pos_num r < 3"
  by (cases r) auto

lemma pos_num_inj: "(pos_num a = pos_num b) = (a = b)"
  by (cases a; cases b) auto

lemma pos_exists: "(\<exists>r. Q r) = (Q P0 \<or> Q P1 \<or> Q P2)"
proof
  assume "\<exists>r. Q r"
  then obtain r where "Q r" ..
  then show "Q P0 \<or> Q P1 \<or> Q P2" by (cases r) auto
qed auto

lemma horizontal_loop_bucket: "horizontal_loop ms p board = bucket_loop row ms p board"
  by (induction ms arbitrary: board) (simp_all add: Let_def)

lemma vertical_loop_bucket: "vertical_loop ms p board = bucket_loop col ms p board"
  by (induction ms arbitrary: board) (simp_all add: Let_def)

lemma bucket_loop_count:
  "length board = 3 \<Longrightarrow> (\<forall>i<3. length (board ! i) < 3) \<Longrightarrow>
   bucket_loop key ms p board = (\<exists>r. 3 \<le> length (board ! pos_num r) + keyCount key ms p r)"
proof (induction ms arbitrary: board)
  case Nil
  have "\<And>r. \<not> 3 \<le> length (board ! pos_num r)"
    using Nil(2) pos_num_less3 by (simp add: not_le)
  then show ?case by (simp add: keyCount_def)
next
  case (Cons m ms)
  let ?r = "pos_num (key m)"
  have r3: "?r < 3" by (rule pos_num_less3)
  have small: "length (board ! ?r) < 3" using Cons.prems(2) r3 by blast
  show ?case
  proof (cases "gamePiece m = p")
    case False
    then have "bucket_loop key (m # ms) p board = bucket_loop key ms p board"
      using small by (simp add: Let_def)
    also have "\<dots> = (\<exists>r. 3 \<le> length (board ! pos_num r) + keyCount key ms p r)"
      using Cons.IH [OF Cons.prems] .
    also have "\<dots> = (\<exists>r. 3 \<le> length (board ! pos_num r) + keyCount key (m # ms) p r)"
      using False by (simp add: keyCount_def)
    finally show ?thesis .
  next
    case True
    let ?b = "board[?r := board ! ?r @ [p]]"
    have len: "\<And>r. length (?b ! pos_num r)
                 = length (board ! pos_num r) + (if r = key m then 1 else 0)"
      using Cons.prems(1) pos_num_less3 by (auto simp: nth_list_update pos_num_inj)
    have cnt: "\<And>r. keyCount key (m # ms) p r
                 = keyCount key ms p r + (if r = key m then 1 else 0)"
      using True by (auto simp: keyCount_def)
    show ?thesis
    proof (cases "length (?b ! ?r) = 3")
      case full: True
      then have "3 \<le> length (board ! ?r) + keyCount key (m # ms) p (key m)"
        using len [of "key m"] cnt [of "key m"] by simp
      then have "\<exists>r. 3 \<le> length (board ! pos_num r) + keyCount key (m # ms) p r" by blast
      moreover have "bucket_loop key (m # ms) p board"
        using True full by (simp add: Let_def)
      ultimately show ?thesis by simp
    next
      case notfull: False
      have b3: "length ?b = 3" using Cons.prems(1) by simp
      have bsmall: "\<forall>i<3. length (?b ! i) < 3"
      proof (intro allI impI)
        fix i :: nat assume i: "i < 3"
        show "length (?b ! i) < 3"
        proof (cases "i = ?r")
          case True
          have "length (?b ! ?r) = length (board ! ?r) + 1"
            using Cons.prems(1) r3 by simp
          then show ?thesis using True small notfull by simp
        next
          case False
          then show ?thesis using Cons.prems(2) i by simp
        qed
      qed
      have "bucket_loop key (m # ms) p board = bucket_loop key ms p ?b"
        using True notfull by (simp add: Let_def)
      also have "\<dots> = (\<exists>r. 3 \<le> length (?b ! pos_num r) + keyCount key ms p r)"
        using Cons.IH [OF b3 bsmall] .
      also have "\<dots> = (\<exists>r. 3 \<le> length (board ! pos_num r) + keyCount key (m # ms) p r)"
        by (simp only: len cnt add.assoc add.commute add.left_commute)
      finally show ?thesis .
    qed
  qed
qed

lemma diagonal_loop_count:
  "length a < 3 \<Longrightarrow> length b < 3 \<Longrightarrow>
   diagonal_loop ms p [a, b] = (3 \<le> length a + diagCount ms p \<or> 3 \<le> length b + antiCount ms p)"
proof (induction ms arbitrary: a b)
  case Nil
  then show ?case by (simp add: diagCount_def antiCount_def)
next
  case (Cons m ms)
  show ?case
  proof (cases "gamePiece m = p")
    case False
    then show ?thesis
      using Cons.IH [OF Cons.prems] by (simp add: diagCount_def antiCount_def)
  next
    case True
    note piece = True
    show ?thesis
    proof (cases "col m = row m")
      case True
      note onDiag = True
      show ?thesis
      proof (cases "length a = 2")
        case True
        then show ?thesis using piece onDiag by (simp add: Let_def diagCount_def)
      next
        case False
        then have a': "length (a @ [p]) < 3" using Cons.prems(1) by simp
        show ?thesis
        proof (cases "pos_num (col m) + pos_num (row m) = 2")
          case True
          note onAnti = True
          show ?thesis
          proof (cases "length b = 2")
            case True
            then show ?thesis using piece onDiag onAnti False
              by (simp add: Let_def antiCount_def)
          next
            case False
            then have b': "length (b @ [p]) < 3" using Cons.prems(2) by simp
            show ?thesis
              using Cons.IH [OF a' b'] piece onDiag onAnti False \<open>length a \<noteq> 2\<close>
              by (simp add: Let_def diagCount_def antiCount_def)
          qed
        next
          case False
          then show ?thesis
            using Cons.IH [OF a' Cons.prems(2)] piece onDiag \<open>length a \<noteq> 2\<close>
            by (simp add: Let_def diagCount_def antiCount_def)
        qed
      qed
    next
      case False
      note offDiag = False
      show ?thesis
      proof (cases "pos_num (col m) + pos_num (row m) = 2")
        case True
        note onAnti = True
        show ?thesis
        proof (cases "length b = 2")
          case True
          then show ?thesis using piece offDiag onAnti
            by (simp add: Let_def antiCount_def)
        next
          case False
          then have b': "length (b @ [p]) < 3" using Cons.prems(2) by simp
          show ?thesis
            using Cons.IH [OF Cons.prems(1) b'] piece offDiag onAnti False
            by (simp add: Let_def diagCount_def antiCount_def)
        qed
      next
        case False
        then show ?thesis
          using Cons.IH [OF Cons.prems] piece offDiag
          by (simp add: Let_def diagCount_def antiCount_def)
      qed
    qed
  qed
qed

lemma lineCount_complete:
  assumes "distinctCells ms" and "distinct line" and "length line = 3"
  shows "(3 \<le> lineCount ms p line) = lineComplete ms p line"
proof
  let ?f = "filter (\<lambda>m. gamePiece m = p \<and> cell m \<in> set line) ms"
  assume ge: "3 \<le> lineCount ms p line"
  have d: "distinct (map cell ?f)"
    using assms(1) by (simp add: distinctCells_def distinct_map_filter)
  have sub: "set (map cell ?f) \<subseteq> set line" by auto
  have "card (set line) = 3" using assms(2,3) by (simp add: distinct_card)
  moreover have "card (set (map cell ?f)) = length ?f"
    using d distinct_card [of "map cell ?f"] by simp
  ultimately have le: "card (set line) \<le> card (set (map cell ?f))"
    using ge by (simp add: lineCount_def)
  have fin: "finite (set line)" by simp
  have "set (map cell ?f) = set line"
    by (rule card_seteq [OF fin sub le])
  then have eq: "set line = cell ` set ?f" by simp
  show "lineComplete ms p line"
    unfolding lineComplete_def
  proof
    fix c assume "c \<in> set line"
    then have "c \<in> cell ` set ?f" using eq by simp
    then obtain m where "m \<in> set ?f" and "cell m = c" by auto
    then show "\<exists>m \<in> set ms. cell m = c \<and> gamePiece m = p" by auto
  qed
next
  let ?f = "filter (\<lambda>m. gamePiece m = p \<and> cell m \<in> set line) ms"
  assume lc: "lineComplete ms p line"
  have "set line \<subseteq> cell ` set ?f"
  proof
    fix c assume c: "c \<in> set line"
    then obtain m where m: "m \<in> set ms" "cell m = c" "gamePiece m = p"
      using lc unfolding lineComplete_def by blast
    then have "m \<in> set ?f" using c by simp
    then show "c \<in> cell ` set ?f" using m(2) by blast
  qed
  then have "card (set line) \<le> card (cell ` set ?f)"
    by (simp add: card_mono)
  also have "\<dots> \<le> card (set ?f)" by (simp add: card_image_le)
  also have "\<dots> \<le> length ?f" by (rule card_length)
  finally show "3 \<le> lineCount ms p line"
    using assms(2,3) by (simp add: lineCount_def distinct_card)
qed

lemma row_line: "(row m = r) = (cell m \<in> set [(r, P0), (r, P1), (r, P2)])"
  by (cases "col m") (auto simp: cell_def)

lemma col_line: "(col m = c) = (cell m \<in> set [(P0, c), (P1, c), (P2, c)])"
  by (cases "row m") (auto simp: cell_def)

lemma diag_line: "(col m = row m) = (cell m \<in> set [(P0, P0), (P1, P1), (P2, P2)])"
  by (cases "row m"; cases "col m") (auto simp: cell_def)

lemma anti_line:
  "(pos_num (col m) + pos_num (row m) = 2) = (cell m \<in> set [(P0, P2), (P1, P1), (P2, P0)])"
  by (cases "row m"; cases "col m") (auto simp: cell_def)

lemma keyCount_row: "keyCount row ms p r = lineCount ms p [(r, P0), (r, P1), (r, P2)]"
  unfolding keyCount_def lineCount_def by (simp only: row_line [symmetric])

lemma keyCount_col: "keyCount col ms p c = lineCount ms p [(P0, c), (P1, c), (P2, c)]"
  unfolding keyCount_def lineCount_def by (simp only: col_line [symmetric])

lemma diagCount_line: "diagCount ms p = lineCount ms p [(P0, P0), (P1, P1), (P2, P2)]"
  unfolding diagCount_def lineCount_def by (simp only: diag_line [symmetric])

lemma antiCount_line: "antiCount ms p = lineCount ms p [(P0, P2), (P1, P1), (P2, P0)]"
  unfolding antiCount_def lineCount_def by (simp only: anti_line [symmetric])

lemma empty_board_nth: "length ([[], [], []] ! pos_num r) = 0"
  by (cases r) simp_all

lemma horizontal_wins:
  assumes "distinctCells ms"
  shows "horizontal_loop ms p [[], [], []] =
           (lineComplete ms p [(P0, P0), (P0, P1), (P0, P2)]
            \<or> lineComplete ms p [(P1, P0), (P1, P1), (P1, P2)]
            \<or> lineComplete ms p [(P2, P0), (P2, P1), (P2, P2)])"
proof -
  have "horizontal_loop ms p [[], [], []] = (\<exists>r. 3 \<le> keyCount row ms p r)"
    unfolding horizontal_loop_bucket
    by (subst bucket_loop_count) (simp_all add: empty_board_nth less_Suc_eq numeral_3_eq_3)
  also have "\<dots> = (\<exists>r. lineComplete ms p [(r, P0), (r, P1), (r, P2)])"
    unfolding keyCount_row using assms by (simp add: lineCount_complete)
  finally show ?thesis by (simp only: pos_exists)
qed

lemma vertical_wins:
  assumes "distinctCells ms"
  shows "vertical_loop ms p [[], [], []] =
           (lineComplete ms p [(P0, P0), (P1, P0), (P2, P0)]
            \<or> lineComplete ms p [(P0, P1), (P1, P1), (P2, P1)]
            \<or> lineComplete ms p [(P0, P2), (P1, P2), (P2, P2)])"
proof -
  have "vertical_loop ms p [[], [], []] = (\<exists>c. 3 \<le> keyCount col ms p c)"
    unfolding vertical_loop_bucket
    by (subst bucket_loop_count) (simp_all add: empty_board_nth less_Suc_eq numeral_3_eq_3)
  also have "\<dots> = (\<exists>c. lineComplete ms p [(P0, c), (P1, c), (P2, c)])"
    unfolding keyCount_col using assms by (simp add: lineCount_complete)
  finally show ?thesis by (simp only: pos_exists)
qed

lemma diagonal_wins:
  assumes "distinctCells ms"
  shows "diagonal_loop ms p [[], []] =
           (lineComplete ms p [(P0, P0), (P1, P1), (P2, P2)]
            \<or> lineComplete ms p [(P0, P2), (P1, P1), (P2, P0)])"
proof -
  have "diagonal_loop ms p [[], []] = (3 \<le> diagCount ms p \<or> 3 \<le> antiCount ms p)"
    by (subst diagonal_loop_count) simp_all
  then show ?thesis
    unfolding diagCount_line antiCount_line using assms by (simp add: lineCount_complete)
qed

lemma playerHasWon_hasLine:
  assumes "distinctCells (moveLog h g)"
  shows "priv_playerHasWon h g gm = hasLine (moveLog h g) (gamePiece (h (move gm)))"
  unfolding priv_playerHasWon_def priv_checkForHorizontalWins_def priv_checkForVerticalWins_def
    priv_checkForDiagonalWins_def horizontal_wins [OF assms] vertical_wins [OF assms]
    diagonal_wins [OF assms] hasLine_def winningLines_def
  by auto

section \<open>What applyMove leaves behind\<close>

lemma applyMove_heap:
  "fst (snd (applyMove h g gm)) = h(move gm := (h (move gm))\<lparr>gamePiece := deducedPiece g gm\<rparr>)"
  by (simp add: applyMove_def Let_def split: sum.splits)

lemma applyMove_rejected:
  "fst (applyMove h g gm) = Inl e \<Longrightarrow> snd (snd (applyMove h g gm)) = g"
  by (auto simp: applyMove_def Let_def split: sum.splits if_splits)

lemma priv_moveIsValid_True: "priv_moveIsValid h g gm = Inr v \<Longrightarrow> v"
  by (auto simp: priv_moveIsValid_def Let_def split: if_splits)

lemma applyMove_accepted:
  assumes "fst (applyMove h g gm) = Inr ()"
  shows "snd (snd (applyMove h g gm)) =
           (let h' = h(move gm := (h (move gm))\<lparr>gamePiece := deducedPiece g gm\<rparr>);
                g1 = g\<lparr>state_moves := state_moves g @ [move gm]\<rparr>
            in if priv_playerHasWon h' g1 gm then
                 g1\<lparr>state_status := OVER, state_winner := Some (playerID gm)\<rparr>
               else if length (state_moves g1) = 9 then
                 g1\<lparr>state_status := OVER, state_winner := None\<rparr>
               else g1)"
  using assms priv_moveIsValid_True
  by (auto simp: applyMove_def Let_def split: sum.splits if_splits)

lemma accepted_facts:
  assumes "fst (applyMove h g gm) = Inr ()"
  shows "state_status g = IN_PROGRESS"
    and "\<not> cellOccupied (moveLog h g) (h (move gm))"
    and "deducedPiece g gm = markToMove (moveLog h g)"
    and "move gm \<notin> set (state_moves g)"
proof -
  show a: "state_status g = IN_PROGRESS"
    using assms unfolding applyMove_outcome by (auto split: if_splits)
  show b: "\<not> cellOccupied (moveLog h g) (h (move gm))"
    using assms unfolding applyMove_outcome by (auto split: if_splits)
  show "deducedPiece g gm = markToMove (moveLog h g)"
    using assms unfolding applyMove_outcome by (auto split: if_splits)
  show "move gm \<notin> set (state_moves g)"
    using b logged_ref_occupied by blast
qed

lemma accepted_log:
  assumes "fst (applyMove h g gm) = Inr ()"
  shows "moveLog (fst (snd (applyMove h g gm))) (snd (snd (applyMove h g gm)))
           = moveLog h g @ [(h (move gm))\<lparr>gamePiece := deducedPiece g gm\<rparr>]"
proof -
  have "moveLog (h(move gm := v)) g = moveLog h g" for v
    using accepted_facts(4) [OF assms] by (rule moveLog_other_ref)
  then show ?thesis
    unfolding applyMove_heap applyMove_accepted [OF assms]
    by (simp add: moveLog_def Let_def)
qed

lemma distinctCells_snoc:
  "distinctCells (ms @ [m]) = (distinctCells ms \<and> \<not> cellOccupied ms m)"
  by (auto simp: distinctCells_def cellOccupied_def)

section \<open>What holds in every reachable state\<close>

lemma join_moves: "state_moves (snd (join g p)) = state_moves g"
  by (simp add: join_def priv_join_def split: prod.splits sum.splits)

lemma priv_leave_out:
  "p \<notin> set (players g) \<Longrightarrow>
   priv_leave g p = (Inl (InvalidParametersError PLAYER_NOT_IN_GAME_MESSAGE), g)"
  by (simp add: priv_leave_def)

lemma priv_leave_waiting:
  "p \<in> set (players g) \<Longrightarrow> state_status g \<noteq> IN_PROGRESS \<Longrightarrow>
   priv_leave g p = (Inr (), g\<lparr>state_status := WAITING_TO_START\<rparr>)"
  by (simp add: priv_leave_def)

lemma priv_leave_first:
  "players g = p0 # p1 # rest \<Longrightarrow> p \<in> set (players g) \<Longrightarrow> state_status g = IN_PROGRESS \<Longrightarrow>
   player_id p0 = player_id p \<Longrightarrow>
   priv_leave g p = (Inr (), g\<lparr>state_status := OVER, state_winner := Some (player_id p1)\<rparr>)"
  by (simp add: priv_leave_def Let_def)

lemma priv_leave_other:
  "players g = p0 # rest \<Longrightarrow> p \<in> set (players g) \<Longrightarrow> state_status g = IN_PROGRESS \<Longrightarrow>
   player_id p0 \<noteq> player_id p \<Longrightarrow>
   priv_leave g p = (Inr (), g\<lparr>state_status := OVER, state_winner := Some (player_id p0)\<rparr>)"
  by (simp add: priv_leave_def Let_def)

lemma priv_leave_alone:
  "players g = [p0] \<Longrightarrow> p \<in> set (players g) \<Longrightarrow> state_status g = IN_PROGRESS \<Longrightarrow>
   priv_leave g p = (Inl TypeError, g\<lparr>state_status := OVER\<rparr>)"
  by (simp add: priv_leave_def Let_def)

lemma priv_leave_cases:
  obtains (out) "p \<notin> set (players g)"
      and "priv_leave g p = (Inl (InvalidParametersError PLAYER_NOT_IN_GAME_MESSAGE), g)"
    | (waiting) "p \<in> set (players g)" and "state_status g \<noteq> IN_PROGRESS"
      and "priv_leave g p = (Inr (), g\<lparr>state_status := WAITING_TO_START\<rparr>)"
    | (forfeit) w where "p \<in> set (players g)" and "state_status g = IN_PROGRESS"
      and "priv_leave g p = (Inr (), g\<lparr>state_status := OVER, state_winner := Some w\<rparr>)"
    | (alone) "p \<in> set (players g)" and "state_status g = IN_PROGRESS"
      and "length (players g) = 1"
      and "priv_leave g p = (Inl TypeError, g\<lparr>state_status := OVER\<rparr>)"
proof (cases "p \<in> set (players g)")
  case False
  then show ?thesis using out priv_leave_out by blast
next
  case True
  note mem = True
  show ?thesis
  proof (cases "state_status g = IN_PROGRESS")
    case False
    then show ?thesis using waiting mem priv_leave_waiting by blast
  next
    case True
    note st = True
    obtain p0 rest where pl: "players g = p0 # rest"
      using mem by (cases "players g") auto
    show ?thesis
    proof (cases "player_id p0 = player_id p")
      case False
      then show ?thesis using forfeit mem st priv_leave_other [OF pl mem st] by blast
    next
      case True
      note same = True
      show ?thesis
      proof (cases rest)
        case Nil
        then have one: "players g = [p0]" using pl by simp
        then have "length (players g) = 1" by simp
        then show ?thesis using alone mem st priv_leave_alone [OF one mem st] by blast
      next
        case (Cons p1 rest')
        then have two: "players g = p0 # p1 # rest'" using pl by simp
        show ?thesis using forfeit mem st priv_leave_first [OF two mem st same] by blast
      qed
    qed
  qed
qed

lemma leave_fst: "fst (leave g p) = fst (priv_leave g p)"
  by (cases "priv_leave g p"; cases "fst (priv_leave g p)") (simp_all add: leave_def)

lemma leave_snd:
  "snd (leave g p) =
     (case fst (priv_leave g p) of
        Inl e \<Rightarrow> snd (priv_leave g p)
      | Inr u \<Rightarrow> (snd (priv_leave g p))
          \<lparr>players := filter (\<lambda>q. player_id q \<noteq> player_id p) (players (snd (priv_leave g p)))\<rparr>)"
  by (cases "priv_leave g p"; cases "fst (priv_leave g p)") (simp_all add: leave_def)

lemma leave_moves: "state_moves (snd (leave g p)) = state_moves g"
  by (rule priv_leave_cases [of p g]) (simp_all add: leave_snd)

lemma moveLog_same_moves: "state_moves g' = state_moves g \<Longrightarrow> moveLog h g' = moveLog h g"
  by (simp add: moveLog_def)

lemma pos_cases: "r = P0 \<or> r = P1 \<or> r = P2"
  by (cases r) auto

lemma distinctCells_length:
  assumes "distinctCells ms"
  shows "length ms \<le> 9"
proof -
  let ?B = "{P0, P1, P2} \<times> {P0, P1, P2}"
  have sub: "set (map cell ms) \<subseteq> ?B"
    using pos_cases by auto
  have "length ms = card (set (map cell ms))"
    using assms distinct_card [of "map cell ms"] by (simp add: distinctCells_def)
  also have "\<dots> \<le> card ?B"
    by (rule card_mono [OF _ sub]) simp
  also have "\<dots> = 9" by (simp add: card_cartesian_product)
  finally show ?thesis .
qed

lemma applyMove_distinctCells:
  assumes "distinctCells (moveLog h g)"
  shows "distinctCells (moveLog (fst (snd (applyMove h g gm))) (snd (snd (applyMove h g gm))))"
proof (cases "fst (applyMove h g gm)")
  case (Inl e)
  have "distinctCells (moveLog (h(move gm := (h (move gm))\<lparr>gamePiece := deducedPiece g gm\<rparr>)) g)"
    using assms unfolding distinctCells_def cells_after_piece_write .
  then show ?thesis
    unfolding applyMove_heap applyMove_rejected [OF Inl] .
next
  case (Inr u)
  then have ok: "fst (applyMove h g gm) = Inr ()" by simp
  show ?thesis
    unfolding accepted_log [OF ok] distinctCells_snoc
    using assms accepted_facts(2) [OF ok]
    by (simp add: cellOccupied_def cell_piece_update)
qed

lemma engine_step_distinctCells:
  assumes "distinctCells (moveLog (fst s) (snd s))"
  shows "distinctCells (moveLog (fst (engine_step s c)) (snd (engine_step s c)))"
proof (cases s)
  case (Pair h g)
  show ?thesis
  proof (cases c)
    case (Join p)
    then show ?thesis using assms Pair
      by (simp add: moveLog_same_moves [OF join_moves])
  next
    case (Leave p)
    then show ?thesis using assms Pair
      by (simp add: moveLog_same_moves [OF leave_moves])
  next
    case (ApplyMove gm)
    then show ?thesis using assms Pair applyMove_distinctCells [of h g gm]
      by simp
  qed
qed

lemma engine_run_distinctCells:
  "distinctCells (moveLog (fst s) (snd s)) \<Longrightarrow>
   distinctCells (moveLog (fst (engine_run s calls)) (snd (engine_run s calls)))"
  unfolding engine_run_def
  by (induction calls arbitrary: s) (simp_all add: engine_step_distinctCells)

lemma new_game_distinctCells: "distinctCells (moveLog h (TicTacToeGame_new gid))"
  by (simp add: distinctCells_def moveLog_def TicTacToeGame_new_def)

section \<open>Joining and leaving\<close>

lemma join_char:
  "join g p =
     (if p \<in> set (players g) then (Inl (InvalidParametersError PLAYER_ALREADY_IN_GAME_MESSAGE), g)
      else if length (players g) = 2 then (Inl (InvalidParametersError GAME_FULL_MESSAGE), g)
      else if length (players g) = 0 then
        (Inr (), g\<lparr>state_x := Some (player_id p), players := players g @ [p]\<rparr>)
      else if length (players g) = 1 then
        (Inr (), g\<lparr>state_o := Some (player_id p), state_status := IN_PROGRESS,
                   players := players g @ [p]\<rparr>)
      else (Inr (), g\<lparr>players := players g @ [p]\<rparr>))"
  by (simp add: join_def priv_join_def)

lemma leave_not_in_game:
  "p \<notin> set (players g) \<Longrightarrow> leave g p = (Inl (InvalidParametersError PLAYER_NOT_IN_GAME_MESSAGE), g)"
  by (simp add: leave_def priv_leave_out)

lemma leave_not_in_progress:
  "p \<in> set (players g) \<Longrightarrow> state_status g \<noteq> IN_PROGRESS \<Longrightarrow>
   leave g p = (Inr (), g\<lparr>state_status := WAITING_TO_START,
                          players := filter (\<lambda>q. player_id q \<noteq> player_id p) (players g)\<rparr>)"
  by (simp add: leave_def priv_leave_waiting)

lemma leave_in_progress:
  assumes "players g = [a, b]" and "p = a \<or> p = b" and "state_status g = IN_PROGRESS"
  shows "leave g p =
           (Inr (), g\<lparr>state_status := OVER,
                      state_winner := Some (player_id (if p = a then b else a)),
                      players := filter (\<lambda>q. player_id q \<noteq> player_id p) [a, b]\<rparr>)"
proof -
  have mem: "p \<in> set (players g)" using assms(1,2) by auto
  have "priv_leave g p =
          (Inr (), g\<lparr>state_status := OVER,
                     state_winner := Some (player_id (if p = a then b else a))\<rparr>)"
  proof (cases "player_id a = player_id p")
    case True
    have "player_id (if p = a then b else a) = player_id b"
      using True assms(2) by auto
    then show ?thesis
      using priv_leave_first [OF assms(1) mem assms(3) True] by simp
  next
    case False
    then have "p \<noteq> a" by auto
    then show ?thesis
      using priv_leave_other [OF assms(1) mem assms(3) False] by simp
  qed
  then show ?thesis using assms(1) by (simp add: leave_def)
qed

lemma join_seatsOk: "seatsOk g \<Longrightarrow> seatsOk (snd (join g p))"
  unfolding join_char seatsOk_def by auto

lemma leave_seatsOk:
  assumes "seatsOk g"
  shows "seatsOk (snd (leave g p))"
proof -
  have len: "length (filter (\<lambda>q. player_id q \<noteq> player_id p) (players g)) \<le> 2"
    using assms order_trans [OF length_filter_le, of "players g" 2 "\<lambda>q. player_id q \<noteq> player_id p"]
    by (simp add: seatsOk_def)
  show ?thesis
  proof (rule priv_leave_cases [of p g])
    assume "priv_leave g p = (Inl (InvalidParametersError PLAYER_NOT_IN_GAME_MESSAGE), g)"
    then show ?thesis using assms by (simp add: leave_snd)
  next
    assume "priv_leave g p = (Inr (), g\<lparr>state_status := WAITING_TO_START\<rparr>)"
    then show ?thesis using len by (simp add: leave_snd seatsOk_def)
  next
    fix w assume "priv_leave g p = (Inr (), g\<lparr>state_status := OVER, state_winner := Some w\<rparr>)"
    then show ?thesis using len by (simp add: leave_snd seatsOk_def)
  next
    assume "priv_leave g p = (Inl TypeError, g\<lparr>state_status := OVER\<rparr>)"
    then show ?thesis using assms by (simp add: leave_snd seatsOk_def)
  qed
qed

lemma applyMove_players: "players (snd (snd (applyMove h g gm))) = players g"
  by (auto simp: applyMove_def Let_def split: sum.splits)

lemma applyMove_status:
  "state_status (snd (snd (applyMove h g gm))) = IN_PROGRESS \<Longrightarrow> state_status g = IN_PROGRESS"
proof (cases "fst (applyMove h g gm)")
  case (Inl e)
  assume "state_status (snd (snd (applyMove h g gm))) = IN_PROGRESS"
  then show ?thesis using applyMove_rejected [OF Inl] by simp
next
  case (Inr u)
  then show ?thesis using accepted_facts(1) [of h g gm] by simp
qed

lemma applyMove_seatsOk: "seatsOk g \<Longrightarrow> seatsOk (snd (snd (applyMove h g gm)))"
  using applyMove_status [of h g gm] by (auto simp: seatsOk_def applyMove_players)

lemma engine_step_seatsOk: "seatsOk (snd s) \<Longrightarrow> seatsOk (snd (engine_step s c))"
  by (cases s; cases c) (simp_all add: join_seatsOk leave_seatsOk applyMove_seatsOk)

lemma engine_run_seatsOk: "seatsOk (snd s) \<Longrightarrow> seatsOk (snd (engine_run s calls))"
  unfolding engine_run_def
  by (induction calls arbitrary: s) (simp_all add: engine_step_seatsOk)

lemma new_game_seatsOk: "seatsOk (TicTacToeGame_new gid)"
  by (simp add: seatsOk_def TicTacToeGame_new_def)

section \<open>Rejected calls, and what never touches the seats\<close>

text \<open>
  A call that throws an \<open>InvalidParametersError\<close> leaves the game record itself (the
  list of recorded objects, status, seats, winner, players) as it was, and the marks in
  the log too when the object handed to \<open>applyMove\<close> is not one of the recorded ones.
  No call other than a \<open>join\<close> that succeeds writes \<open>state.x\<close> or \<open>state.o\<close>.
\<close>

lemma join_rejected: "fst (join g p) = Inl e \<Longrightarrow> snd (join g p) = g"
  unfolding join_char by (auto split: if_splits)

lemma leave_rejected:
  "fst (leave g p) = Inl (InvalidParametersError m) \<Longrightarrow> snd (leave g p) = g"
  by (rule priv_leave_cases [of p g]) (simp_all add: leave_fst leave_snd)

lemma applyMove_rejected_fresh:
  assumes "fst (applyMove h g gm) = Inl e" and "move gm \<notin> set (state_moves g)"
  shows "snd (snd (applyMove h g gm)) = g
         \<and> moveLog (fst (snd (applyMove h g gm))) (snd (snd (applyMove h g gm))) = moveLog h g"
  using assms by (simp add: applyMove_rejected applyMove_heap moveLog_other_ref)

lemma leave_seats: "state_x (snd (leave g p)) = state_x g \<and> state_o (snd (leave g p)) = state_o g"
  by (rule priv_leave_cases [of p g]) (simp_all add: leave_snd)

lemma applyMove_seats:
  "state_x (snd (snd (applyMove h g gm))) = state_x g
   \<and> state_o (snd (snd (applyMove h g gm))) = state_o g"
proof (cases "fst (applyMove h g gm)")
  case (Inl e)
  then show ?thesis by (simp add: applyMove_rejected)
next
  case (Inr u)
  then have ok: "fst (applyMove h g gm) = Inr ()" by simp
  show ?thesis unfolding applyMove_accepted [OF ok] by (simp add: Let_def)
qed

section \<open>When the ledger grows\<close>

text \<open>
  A leave or move command that returns appends one record when the status it leaves is
  \<open>OVER\<close>, and none otherwise.
\<close>

lemma leave_command_ledger:
  assumes "handleCommand nid h a (LeaveGameCommand gid) p = (Inr r, h', a')"
  shows "\<exists>g'. area_game a' = Some g'
           \<and> (if state_status g' = OVER
               then \<exists>sc. history a' = history a @ [\<lparr>result_gameID = game_id g', scores = sc\<rparr>]
               else history a' = history a)"
proof -
  obtain g where g: "area_game a = Some g" and gid: "gid = game_id g"
    using assms
    by (cases "area_game a")
       (auto simp: handleCommand_def priv_handleLeaveCommand_def split: if_splits)
  obtain u g' where l: "leave g p = (u, g')" by (cases "leave g p")
  show ?thesis
  proof (cases u)
    case (Inl e)
    then show ?thesis
      using assms g gid l by (simp add: handleCommand_def priv_handleLeaveCommand_def)
  next
    case (Inr v)
    show ?thesis
    proof (cases "state_status g' = OVER")
      case False
      then show ?thesis
        using assms g gid l Inr
        by (auto simp: handleCommand_def priv_handleLeaveCommand_def Let_def)
    next
      case True
      then show ?thesis
        using assms g gid l Inr
        by (cases "leaveScores (occupants a) (state_winner g')")
           (auto simp: handleCommand_def priv_handleLeaveCommand_def Let_def)
    qed
  qed
qed

lemma move_command_ledger:
  assumes "handleCommand nid h a (GameMoveCommand gid mv) p = (Inr r, h', a')"
  shows "\<exists>g'. area_game a' = Some g'
           \<and> (if state_status g' = OVER
               then \<exists>sc. history a' = history a @ [\<lparr>result_gameID = game_id g', scores = sc\<rparr>]
               else history a' = history a)"
proof -
  obtain g where g: "area_game a = Some g" and gid: "gid = game_id g"
    using assms
    by (cases "area_game a")
       (auto simp: handleCommand_def priv_handleMoveCommand_def split: if_splits)
  obtain u h1 g' where
    m: "applyMove h g \<lparr>playerID = player_id p, gameID = game_id g, move = mv\<rparr> = (u, h1, g')"
    by (cases "applyMove h g \<lparr>playerID = player_id p, gameID = game_id g, move = mv\<rparr>")
  show ?thesis
  proof (cases u)
    case (Inl e)
    then show ?thesis
      using assms g gid m by (simp add: handleCommand_def priv_handleMoveCommand_def)
  next
    case (Inr v)
    show ?thesis
    proof (cases "state_status g' = OVER")
      case False
      then show ?thesis
        using assms g gid m Inr
        by (auto simp: handleCommand_def priv_handleMoveCommand_def Let_def)
    next
      case True
      then show ?thesis
        using assms g gid m Inr
        by (cases "moveScores (occupants a) (state_winner g') p")
           (auto simp: handleCommand_def priv_handleMoveCommand_def Let_def)
    qed
  qed
qed

section \<open>Claim C1: what an accepted move does\<close>




section \<open>Claim C2: the order of validation\<close>

text \<open>
  Claim C2. \<open>applyMove\<close> validates in a fixed order and throws one failure: when the
  status is not \<open>IN_PROGRESS\<close> it throws \<open>GAME_NOT_IN_PROGRESS_MESSAGE\<close> whatever the
  move; otherwise, when the target cell is already in the log, it throws
  \<open>BOARD_POSITION_NOT_EMPTY_MESSAGE\<close>, also when the move is out of turn; otherwise, when
  the mover's deduced mark is not the mark to move (X on an empty log, else the
  opposite of the last recorded mark), it throws \<open>MOVE_NOT_YOUR_TURN_MESSAGE\<close>;
  otherwise the move is accepted.
\<close>

theorem applyMove_validation_order:
  "(state_status g \<noteq> IN_PROGRESS \<longrightarrow>
      fst (applyMove h g gm) = Inl (InvalidParametersError GAME_NOT_IN_PROGRESS_MESSAGE))
   \<and> (state_status g = IN_PROGRESS \<and> cellOccupied (moveLog h g) (h (move gm)) \<longrightarrow>
      fst (applyMove h g gm) = Inl (InvalidParametersError BOARD_POSITION_NOT_EMPTY_MESSAGE))
   \<and> (state_status g = IN_PROGRESS \<and> \<not> cellOccupied (moveLog h g) (h (move gm))
       \<and> deducedPiece g gm \<noteq> markToMove (moveLog h g) \<longrightarrow>
      fst (applyMove h g gm) = Inl (InvalidParametersError MOVE_NOT_YOUR_TURN_MESSAGE))
   \<and> (state_status g = IN_PROGRESS \<and> \<not> cellOccupied (moveLog h g) (h (move gm))
       \<and> deducedPiece g gm = markToMove (moveLog h g) \<longrightarrow>
      fst (applyMove h g gm) = Inr ())"
  unfolding applyMove_outcome by simp

theorem applyMove_validation_order_witness:
  "state_status (snd startState) \<noteq> IN_PROGRESS
   \<and> fst (applyMove (fst startState) (snd startState) (moveOf alice 0))
       = Inl (InvalidParametersError GAME_NOT_IN_PROGRESS_MESSAGE)
   \<and> state_status (snd rowZeroState) = IN_PROGRESS
   \<and> cellOccupied (moveLog (fst rowZeroState) (snd rowZeroState)) (fst rowZeroState 9)
   \<and> deducedPiece (snd rowZeroState) (moveOf bob 9)
       \<noteq> markToMove (moveLog (fst rowZeroState) (snd rowZeroState))
   \<and> fst (applyMove (fst rowZeroState) (snd rowZeroState) (moveOf bob 9))
       = Inl (InvalidParametersError BOARD_POSITION_NOT_EMPTY_MESSAGE)
   \<and> \<not> cellOccupied (moveLog (fst rowZeroState) (snd rowZeroState)) (fst rowZeroState 2)
   \<and> fst (applyMove (fst rowZeroState) (snd rowZeroState) (moveOf bob 2))
       = Inl (InvalidParametersError MOVE_NOT_YOUR_TURN_MESSAGE)
   \<and> deducedPiece (snd rowZeroState) (moveOf alice 2)
       = markToMove (moveLog (fst rowZeroState) (snd rowZeroState))
   \<and> fst (applyMove (fst rowZeroState) (snd rowZeroState) (moveOf alice 2)) = Inr ()"
proof -
  have a: "state_status (snd startState) \<noteq> IN_PROGRESS" by code_simp
  have b: "state_status (snd rowZeroState) = IN_PROGRESS" by code_simp
  have c: "cellOccupied (moveLog (fst rowZeroState) (snd rowZeroState))
             (fst rowZeroState (move (moveOf bob 9)))" by code_simp
  have c': "move (moveOf bob 9) = 9" "move (moveOf bob 2) = 2" "move (moveOf alice 2) = 2"
    by (simp_all add: moveOf_def)
  have d: "deducedPiece (snd rowZeroState) (moveOf bob 9)
             \<noteq> markToMove (moveLog (fst rowZeroState) (snd rowZeroState))" by code_simp
  have e: "\<not> cellOccupied (moveLog (fst rowZeroState) (snd rowZeroState))
             (fst rowZeroState (move (moveOf bob 2)))" by code_simp
  have f: "deducedPiece (snd rowZeroState) (moveOf bob 2)
             \<noteq> markToMove (moveLog (fst rowZeroState) (snd rowZeroState))" by code_simp
  have g: "deducedPiece (snd rowZeroState) (moveOf alice 2)
             = markToMove (moveLog (fst rowZeroState) (snd rowZeroState))" by code_simp
  show ?thesis
    using applyMove_validation_order [of "snd startState" "fst startState" "moveOf alice 0"]
      applyMove_validation_order [of "snd rowZeroState" "fst rowZeroState" "moveOf bob 9"]
      applyMove_validation_order [of "snd rowZeroState" "fst rowZeroState" "moveOf bob 2"]
      applyMove_validation_order [of "snd rowZeroState" "fst rowZeroState" "moveOf alice 2"]
      a b c d e f g
    unfolding c' by simp
qed

section \<open>Claim C3: the log has at most nine moves, on nine different cells\<close>

text \<open>
  Claim C3. In every state reached from a fresh game by any sequence of \<open>join\<close>,
  \<open>leave\<close> and \<open>applyMove\<close> calls, failing calls included, the log has at most nine
  moves and no two recorded moves lie on the same cell.
\<close>

theorem reachable_log_bounded:
  "engine_run (h, TicTacToeGame_new gid) calls = (h', g') \<Longrightarrow>
   length (state_moves g') \<le> 9 \<and> length (moveLog h' g') \<le> 9 \<and> distinctCells (moveLog h' g')"
proof -
  assume run: "engine_run (h, TicTacToeGame_new gid) calls = (h', g')"
  have "distinctCells (moveLog (fst (engine_run (h, TicTacToeGame_new gid) calls))
          (snd (engine_run (h, TicTacToeGame_new gid) calls)))"
    by (rule engine_run_distinctCells) (simp add: new_game_distinctCells)
  then have d: "distinctCells (moveLog h' g')" using run by simp
  then have "length (moveLog h' g') \<le> 9" by (rule distinctCells_length)
  then show ?thesis using d by (simp add: moveLog_def)
qed

theorem reachable_log_bounded_witness:
  "length (state_moves (snd (engine_run startState rowZeroRun))) \<le> 9
   \<and> distinctCells (moveLog (fst (engine_run startState rowZeroRun))
        (snd (engine_run startState rowZeroRun)))
   \<and> state_moves (snd (engine_run startState rowZeroRun)) = [0, 4, 1, 8, 2]"
proof -
  have eq: "engine_run (boardHeap, TicTacToeGame_new ''game-1'') rowZeroRun
              = (fst (engine_run startState rowZeroRun), snd (engine_run startState rowZeroRun))"
    by (simp add: startState_def)
  have "state_moves (snd (engine_run startState rowZeroRun)) = [0, 4, 1, 8, 2]"
    by code_simp
  then show ?thesis using reachable_log_bounded [OF eq] by simp
qed

section \<open>Claim C4: a finished game can be reopened\<close>

text \<open>
  Claim C4 says that \<open>OVER\<close> is terminal: once the status is \<open>OVER\<close>, no \<open>join\<close>, \<open>leave\<close>
  or \<open>applyMove\<close> changes it. The code does not keep this. In the run below X wins on
  column 0, so the status is \<open>OVER\<close> with two players in the game; when the loser then
  leaves, \<open>_leave\<close> takes its \<open>else\<close> branch and sets the status to \<open>WAITING_TO_START\<close>,
  and a third player who joins next puts the game back to \<open>IN_PROGRESS\<close>, on the old
  log and with the old winner still set.
\<close>

theorem over_is_reopened:
  "state_status (snd (engine_run startState colZeroRun)) = OVER
   \<and> state_winner (snd (engine_run startState colZeroRun)) = Some ''id-alice''
   \<and> state_status (snd (engine_run startState (colZeroRun @ [Leave bob]))) = WAITING_TO_START
   \<and> state_status (snd (engine_run startState (colZeroRun @ [Leave bob, Join carol]))) = IN_PROGRESS
   \<and> state_winner (snd (engine_run startState (colZeroRun @ [Leave bob, Join carol])))
       = Some ''id-alice''
   \<and> length (state_moves (snd (engine_run startState (colZeroRun @ [Leave bob, Join carol])))) = 5"
  by code_simp

section \<open>Claim C5: a rejected move can change the log\<close>

text \<open>
  Claim C5 says that every validation failure of \<open>join\<close>, \<open>leave\<close> or \<open>applyMove\<close> leaves
  the game exactly as it was. \<open>applyMove\<close> writes the deduced mark into the move object
  it is handed before it validates. When that object is one already recorded in the log
  the write changes the log, and the call then throws. Below, X has played the object at
  address 0 on cell (0,0); O submits the same object: the call throws
  \<open>BOARD_POSITION_NOT_EMPTY_MESSAGE\<close>, yet the recorded move now carries the mark O, and
  with it the turn has passed to X: O's next move on a free cell is refused as out of
  turn.
\<close>

theorem rejected_move_rewrites_log:
  "moveLog (fst oneMoveState) (snd oneMoveState) = [\<lparr>row = P0, col = P0, gamePiece = PieceX\<rparr>]
   \<and> fst (applyMove (fst oneMoveState) (snd oneMoveState) (moveOf bob 0))
       = Inl (InvalidParametersError BOARD_POSITION_NOT_EMPTY_MESSAGE)
   \<and> moveLog (fst (snd (applyMove (fst oneMoveState) (snd oneMoveState) (moveOf bob 0))))
        (snd (snd (applyMove (fst oneMoveState) (snd oneMoveState) (moveOf bob 0))))
       = [\<lparr>row = P0, col = P0, gamePiece = PieceO\<rparr>]
   \<and> fst (applyMove (fst oneMoveState) (snd oneMoveState) (moveOf bob 4)) = Inr ()
   \<and> fst (applyMove (fst (snd (applyMove (fst oneMoveState) (snd oneMoveState) (moveOf bob 0))))
        (snd (snd (applyMove (fst oneMoveState) (snd oneMoveState) (moveOf bob 0)))) (moveOf bob 4))
       = Inl (InvalidParametersError MOVE_NOT_YOUR_TURN_MESSAGE)"
  by code_simp

section \<open>Claim C6: leaving\<close>

text \<open>
  Claim C6 as written makes the outcome of \<open>leave\<close> depend on whether the participant
  holds a mark. \<open>_leave\<close> does not look at \<open>state.x\<close> and \<open>state.o\<close>: it looks the
  participant up in \<open>this._players\<close>, and the two differ once a player has left and
  another has joined. Below, X is recorded for alice and O for carol while the players
  of the game are bob and carol: bob, who holds no mark, leaves without a failure and
  forfeits to carol; alice, who holds X, is refused with \<open>PLAYER_NOT_IN_GAME_MESSAGE\<close>.
\<close>

theorem leave_ignores_marks:
  "state_x (snd reseatedState) = Some ''id-alice''
   \<and> state_o (snd reseatedState) = Some ''id-carol''
   \<and> players (snd reseatedState) = [bob, carol]
   \<and> state_status (snd reseatedState) = IN_PROGRESS
   \<and> player_id bob = ''id-bob'' \<and> player_id alice = ''id-alice''
   \<and> fst (leave (snd reseatedState) bob) = Inr ()
   \<and> state_status (snd (leave (snd reseatedState) bob)) = OVER
   \<and> state_winner (snd (leave (snd reseatedState) bob)) = Some ''id-carol''
   \<and> fst (leave (snd reseatedState) alice)
       = Inl (InvalidParametersError PLAYER_NOT_IN_GAME_MESSAGE)"
  by code_simp

text \<open>
  Claim C6, amended. \<open>leave\<close> throws \<open>PLAYER_NOT_IN_GAME_MESSAGE\<close> when the participant
  is not among the game's players, whatever marks are recorded. When a player of the
  game leaves while the status is \<open>IN_PROGRESS\<close>, in any state the engine reaches and so
  whatever the moves played, the status becomes \<open>OVER\<close> and the winner is the other
  player. When a player of the game leaves while the status is not \<open>IN_PROGRESS\<close>, the
  status is set to \<open>WAITING_TO_START\<close>.
\<close>

theorem leave_outcomes:
  "(p \<notin> set (players g) \<longrightarrow>
      leave g p = (Inl (InvalidParametersError PLAYER_NOT_IN_GAME_MESSAGE), g))
   \<and> (p \<in> set (players g) \<and> state_status g \<noteq> IN_PROGRESS \<longrightarrow>
        fst (leave g p) = Inr () \<and> state_status (snd (leave g p)) = WAITING_TO_START)
   \<and> (engine_run (h0, TicTacToeGame_new gid) calls = (h, g) \<and> p \<in> set (players g)
       \<and> state_status g = IN_PROGRESS \<longrightarrow>
        (\<exists>a b. players g = [a, b] \<and> (p = a \<or> p = b)
           \<and> fst (leave g p) = Inr ()
           \<and> state_status (snd (leave g p)) = OVER
           \<and> state_winner (snd (leave g p)) = Some (player_id (if p = a then b else a))
           \<and> state_moves (snd (leave g p)) = state_moves g))"
proof (intro conjI impI)
  assume "p \<notin> set (players g)"
  then show "leave g p = (Inl (InvalidParametersError PLAYER_NOT_IN_GAME_MESSAGE), g)"
    by (rule leave_not_in_game)
next
  assume "p \<in> set (players g) \<and> state_status g \<noteq> IN_PROGRESS"
  then show "fst (leave g p) = Inr ()" by (simp add: leave_not_in_progress)
next
  assume "p \<in> set (players g) \<and> state_status g \<noteq> IN_PROGRESS"
  then show "state_status (snd (leave g p)) = WAITING_TO_START"
    by (simp add: leave_not_in_progress)
next
  assume a: "engine_run (h0, TicTacToeGame_new gid) calls = (h, g) \<and> p \<in> set (players g)
             \<and> state_status g = IN_PROGRESS"
  have "seatsOk (snd (engine_run (h0, TicTacToeGame_new gid) calls))"
    by (rule engine_run_seatsOk) (simp add: new_game_seatsOk)
  then have "length (players g) = 2" using a by (simp add: seatsOk_def)
  then obtain x y where xy: "players g = [x, y]"
    by (cases "players g"; cases "tl (players g)") auto
  then have p: "p = x \<or> p = y" using a by auto
  have st: "state_status g = IN_PROGRESS" using a by simp
  show "\<exists>a b. players g = [a, b] \<and> (p = a \<or> p = b)
           \<and> fst (leave g p) = Inr ()
           \<and> state_status (snd (leave g p)) = OVER
           \<and> state_winner (snd (leave g p)) = Some (player_id (if p = a then b else a))
           \<and> state_moves (snd (leave g p)) = state_moves g"
    using xy p by (intro exI [of _ x] exI [of _ y]) (simp add: leave_in_progress [OF xy p st])
qed

theorem leave_outcomes_witness:
  "carol \<notin> set (players (snd oneMoveState))
   \<and> leave (snd oneMoveState) carol
       = (Inl (InvalidParametersError PLAYER_NOT_IN_GAME_MESSAGE), snd oneMoveState)
   \<and> alice \<in> set (players (snd (engine_run startState [Join alice])))
   \<and> state_status (snd (engine_run startState [Join alice])) \<noteq> IN_PROGRESS
   \<and> state_status (snd (leave (snd (engine_run startState [Join alice])) alice)) = WAITING_TO_START
   \<and> alice \<in> set (players (snd oneMoveState))
   \<and> state_status (snd oneMoveState) = IN_PROGRESS
   \<and> state_status (snd (leave (snd oneMoveState) alice)) = OVER
   \<and> state_winner (snd (leave (snd oneMoveState) alice)) = Some ''id-bob''"
proof -
  let ?g1 = "snd (engine_run startState [Join alice])" and ?g = "snd oneMoveState"
  have a: "carol \<notin> set (players ?g)" by code_simp
  have b: "alice \<in> set (players ?g1)" "state_status ?g1 \<noteq> IN_PROGRESS" by code_simp+
  have c: "alice \<in> set (players ?g)" "state_status ?g = IN_PROGRESS" by code_simp+
  have run: "engine_run (boardHeap, TicTacToeGame_new ''game-1'') [Join alice, Join bob, moveBy alice 0]
               = (fst oneMoveState, ?g)"
    by (simp add: oneMoveState_def startState_def)
  have pl: "players ?g = [alice, bob]" by code_simp
  have ab: "alice \<noteq> bob" by code_simp
  have idb: "player_id bob = ''id-bob''" by code_simp
  from leave_outcomes [of alice ?g "boardHeap" "''game-1''" "[Join alice, Join bob, moveBy alice 0]"
      "fst oneMoveState"] run c
  obtain x y where xy: "players ?g = [x, y]"
    and w: "state_status (snd (leave ?g alice)) = OVER"
      "state_winner (snd (leave ?g alice)) = Some (player_id (if alice = x then y else x))"
    by blast
  have "x = alice" "y = bob" using xy pl by simp_all
  then have w': "state_winner (snd (leave ?g alice)) = Some ''id-bob''"
    using w(2) idb by simp
  show ?thesis
    using leave_outcomes [of carol ?g] leave_outcomes [of alice ?g1] a b c w(1) w'
    by simp
qed

section \<open>Claim C7: joining assigns the marks\<close>

text \<open>
  Claim C7 as written says that the first participant to join holds X and the second
  holds O for the rest of the game's lifetime. The marks are assigned by the number of
  players in the game at the time of the call, and the game object lives on after a
  player has left: the next join assigns a seat again. Nor do the failures of join
  look at the marks: a participant whose id is still recorded as X joins again without
  \<open>PLAYER_ALREADY_IN_GAME_MESSAGE\<close> once it has left, and with both marks recorded a
  third participant joins without \<open>GAME_FULL_MESSAGE\<close> once one player has left.
\<close>

theorem mark_assignment_changes:
  "state_x (snd (engine_run startState [Join alice])) = Some ''id-alice''
   \<and> state_x (snd (engine_run startState [Join alice, Leave alice, Join bob])) = Some ''id-bob''
   \<and> state_o (snd (engine_run startState [Join alice, Join bob])) = Some ''id-bob''
   \<and> state_o (snd (engine_run startState [Join alice, Join bob, Leave bob, Join carol]))
       = Some ''id-carol''
   \<and> state_x (snd (engine_run startState [Join alice, Leave alice])) = Some ''id-alice''
   \<and> fst (join (snd (engine_run startState [Join alice, Leave alice])) alice) = Inr ()
   \<and> state_x (snd (engine_run startState [Join alice, Join bob, Leave bob])) = Some ''id-alice''
   \<and> state_o (snd (engine_run startState [Join alice, Join bob, Leave bob])) = Some ''id-bob''
   \<and> fst (join (snd (engine_run startState [Join alice, Join bob, Leave bob])) carol) = Inr ()"
  by code_simp

text \<open>
  Claim C7, amended. The first participant to join a game is assigned the mark X with
  status \<open>WAITING_TO_START\<close>, the second joiner the mark O and the status becomes
  \<open>IN_PROGRESS\<close>. These assignments are never changed by \<open>applyMove\<close>, by \<open>leave\<close> or by
  a \<open>join\<close> that fails; a later \<open>join\<close> that succeeds, which is possible once a player
  has left, assigns X again when the game has no player and O when it has one. \<open>join\<close>
  fails with \<open>PLAYER_ALREADY_IN_GAME_MESSAGE\<close> when the joiner is already among the
  game's players and with \<open>GAME_FULL_MESSAGE\<close> when the game already has two players.
\<close>

theorem join_assigns_marks:
  "join (TicTacToeGame_new gid) p
     = (Inr (), (TicTacToeGame_new gid)\<lparr>state_x := Some (player_id p), players := [p]\<rparr>)
   \<and> state_status (snd (join (TicTacToeGame_new gid) p)) = WAITING_TO_START
   \<and> (players g = [] \<longrightarrow>
        join g p = (Inr (), g\<lparr>state_x := Some (player_id p), players := [p]\<rparr>))
   \<and> (players g = [a] \<and> p \<noteq> a \<longrightarrow>
        join g p = (Inr (), g\<lparr>state_o := Some (player_id p), state_status := IN_PROGRESS,
                              players := [a, p]\<rparr>))
   \<and> (p \<in> set (players g) \<longrightarrow>
        join g p = (Inl (InvalidParametersError PLAYER_ALREADY_IN_GAME_MESSAGE), g))
   \<and> (p \<notin> set (players g) \<and> length (players g) = 2 \<longrightarrow>
        join g p = (Inl (InvalidParametersError GAME_FULL_MESSAGE), g))
   \<and> (\<forall>e. fst (join g p) = Inl e \<longrightarrow> snd (join g p) = g)
   \<and> state_x (snd (leave g p)) = state_x g \<and> state_o (snd (leave g p)) = state_o g
   \<and> state_x (snd (snd (applyMove h g gm))) = state_x g
   \<and> state_o (snd (snd (applyMove h g gm))) = state_o g"
proof -
  have fresh: "join (TicTacToeGame_new gid) p
     = (Inr (), (TicTacToeGame_new gid)\<lparr>state_x := Some (player_id p), players := [p]\<rparr>)"
    unfolding join_char by (simp add: TicTacToeGame_new_def)
  have st: "state_status (snd (join (TicTacToeGame_new gid) p)) = WAITING_TO_START"
    unfolding fresh by (simp add: TicTacToeGame_new_def)
  have first: "players g = [] \<longrightarrow>
        join g p = (Inr (), g\<lparr>state_x := Some (player_id p), players := [p]\<rparr>)"
    unfolding join_char by simp
  have second: "players g = [a] \<and> p \<noteq> a \<longrightarrow>
        join g p = (Inr (), g\<lparr>state_o := Some (player_id p), state_status := IN_PROGRESS,
                              players := [a, p]\<rparr>)"
    unfolding join_char by simp
  have already: "p \<in> set (players g) \<longrightarrow>
        join g p = (Inl (InvalidParametersError PLAYER_ALREADY_IN_GAME_MESSAGE), g)"
    unfolding join_char by simp
  have full: "p \<notin> set (players g) \<and> length (players g) = 2 \<longrightarrow>
        join g p = (Inl (InvalidParametersError GAME_FULL_MESSAGE), g)"
    unfolding join_char by simp
  have rej: "\<forall>e. fst (join g p) = Inl e \<longrightarrow> snd (join g p) = g"
    using join_rejected by blast
  show ?thesis
    using fresh st first second already full rej leave_seats [of g p] applyMove_seats [of h g gm]
    by blast
qed

theorem join_assigns_marks_witness:
  "state_x (snd (join (TicTacToeGame_new ''game-1'') alice)) = Some ''id-alice''
   \<and> state_status (snd (join (TicTacToeGame_new ''game-1'') alice)) = WAITING_TO_START
   \<and> players (snd (engine_run startState [Join alice])) = [alice] \<and> bob \<noteq> alice
   \<and> join (snd (engine_run startState [Join alice])) bob
       = (Inr (), (snd (engine_run startState [Join alice]))
            \<lparr>state_o := Some ''id-bob'', state_status := IN_PROGRESS, players := [alice, bob]\<rparr>)
   \<and> alice \<in> set (players (snd oneMoveState))
   \<and> join (snd oneMoveState) alice
       = (Inl (InvalidParametersError PLAYER_ALREADY_IN_GAME_MESSAGE), snd oneMoveState)
   \<and> carol \<notin> set (players (snd oneMoveState)) \<and> length (players (snd oneMoveState)) = 2
   \<and> join (snd oneMoveState) carol
       = (Inl (InvalidParametersError GAME_FULL_MESSAGE), snd oneMoveState)
   \<and> state_x (snd (leave (snd oneMoveState) alice)) = Some ''id-alice''"
proof -
  let ?g1 = "snd (engine_run startState [Join alice])" and ?g = "snd oneMoveState"
  have a: "players ?g1 = [alice]" "bob \<noteq> alice" by code_simp+
  have b: "alice \<in> set (players ?g)" "carol \<notin> set (players ?g)" "length (players ?g) = 2"
    by code_simp+
  have c: "state_x ?g = Some ''id-alice''" by code_simp
  have ids: "player_id alice = ''id-alice''" "player_id bob = ''id-bob''" by code_simp+
  show ?thesis
    using join_assigns_marks [of "''game-1''" alice ?g1 alice]
      join_assigns_marks [of "''game-1''" bob ?g1 alice]
      join_assigns_marks [of "''game-1''" alice ?g alice]
      join_assigns_marks [of "''game-1''" carol ?g alice]
      a b c ids
    by simp
qed

section \<open>Claim C8: the ledger\<close>

text \<open>
  Claim C8 says that a leave or move command that ends the game appends one record that
  scores the winner 1 and the loser 0, the leaving participant scoring 0 on a forfeit.
  The leave handler takes the two names from the first two occupants of the area, not
  from the game: with a spectator standing in the area before the players, alice's
  forfeit makes bob the winner, and the record scores alice 1, the spectator carol 0,
  and has no entry for bob. With the two players alone in the area the record is the
  one the claim describes. The move handler takes the loser's name the same way: when
  alice wins on column 0 with the spectator in the area, the record scores alice 1 and
  carol 0, and bob, who lost, is not in it.
\<close>

theorem forfeit_record_scores_leaver:
  "state_winner (the (area_game (snd (area_run ''game-1'' spectatorArea
       (bothJoin @ [(LeaveGameCommand ''game-1'', alice)]))))) = Some ''id-bob''
   \<and> history (snd (area_run ''game-1'' spectatorArea
       (bothJoin @ [(LeaveGameCommand ''game-1'', alice)])))
       = [\<lparr>result_gameID = ''game-1'', scores = [(''alice'', 1), (''carol'', 0)]\<rparr>]
   \<and> history (snd (area_run ''game-1'' playersArea
       (bothJoin @ [(LeaveGameCommand ''game-1'', alice)])))
       = [\<lparr>result_gameID = ''game-1'', scores = [(''bob'', 1), (''alice'', 0)]\<rparr>]
   \<and> state_winner (the (area_game (snd (area_run ''game-1'' spectatorArea
       (bothJoin @ colZeroCommands))))) = Some ''id-alice''
   \<and> history (snd (area_run ''game-1'' spectatorArea (bothJoin @ colZeroCommands)))
       = [\<lparr>result_gameID = ''game-1'', scores = [(''alice'', 1), (''carol'', 0)]\<rparr>]"
  by code_simp

section \<open>Claim C9: failures of the router\<close>

text \<open>
  Claim C9. A leave or move command fails with \<open>GAME_NOT_IN_PROGRESS_MESSAGE\<close> when the
  area has no game, and with \<open>GAME_ID_MISSMATCH_MESSAGE\<close> when the command's game id is
  not the id of the area's game; a command of any kind other than join, leave and move
  fails with \<open>INVALID_COMMAND_MESSAGE\<close>; and whatever the engine throws in \<open>join\<close>,
  \<open>leave\<close> or \<open>applyMove\<close> reaches the caller unchanged.
\<close>

theorem handleCommand_failures:
  "(area_game a = None \<longrightarrow>
      fst (handleCommand nid h a (LeaveGameCommand gid) p)
        = Inl (InvalidParametersError GAME_NOT_IN_PROGRESS_MESSAGE)
      \<and> fst (handleCommand nid h a (GameMoveCommand gid mv) p)
        = Inl (InvalidParametersError GAME_NOT_IN_PROGRESS_MESSAGE))
   \<and> (area_game a = Some g \<and> gid \<noteq> game_id g \<longrightarrow>
      fst (handleCommand nid h a (LeaveGameCommand gid) p)
        = Inl (InvalidParametersError GAME_ID_MISSMATCH_MESSAGE)
      \<and> fst (handleCommand nid h a (GameMoveCommand gid mv) p)
        = Inl (InvalidParametersError GAME_ID_MISSMATCH_MESSAGE))
   \<and> fst (handleCommand nid h a (OtherCommand t) p)
        = Inl (InvalidParametersError INVALID_COMMAND_MESSAGE)
   \<and> (area_game a = Some g \<and> fst (join g p) = Inl e \<longrightarrow>
      fst (handleCommand nid h a JoinGameCommand p) = Inl e)
   \<and> (area_game a = Some g \<and> gid = game_id g \<and> fst (leave g p) = Inl e \<longrightarrow>
      fst (handleCommand nid h a (LeaveGameCommand gid) p) = Inl e)
   \<and> (area_game a = Some g \<and> gid = game_id g
       \<and> fst (applyMove h g \<lparr>playerID = player_id p, gameID = gid, move = mv\<rparr>) = Inl e \<longrightarrow>
      fst (handleCommand nid h a (GameMoveCommand gid mv) p) = Inl e)"
proof -
  have none: "area_game a = None \<longrightarrow>
      fst (handleCommand nid h a (LeaveGameCommand gid) p)
        = Inl (InvalidParametersError GAME_NOT_IN_PROGRESS_MESSAGE)
      \<and> fst (handleCommand nid h a (GameMoveCommand gid mv) p)
        = Inl (InvalidParametersError GAME_NOT_IN_PROGRESS_MESSAGE)"
    by (simp add: handleCommand_def priv_handleLeaveCommand_def priv_handleMoveCommand_def)
  have mismatch: "area_game a = Some g \<and> gid \<noteq> game_id g \<longrightarrow>
      fst (handleCommand nid h a (LeaveGameCommand gid) p)
        = Inl (InvalidParametersError GAME_ID_MISSMATCH_MESSAGE)
      \<and> fst (handleCommand nid h a (GameMoveCommand gid mv) p)
        = Inl (InvalidParametersError GAME_ID_MISSMATCH_MESSAGE)"
    by (auto simp: handleCommand_def priv_handleLeaveCommand_def priv_handleMoveCommand_def)
  have other: "fst (handleCommand nid h a (OtherCommand t) p)
        = Inl (InvalidParametersError INVALID_COMMAND_MESSAGE)"
    by (simp add: handleCommand_def)
  have j: "area_game a = Some g \<and> fst (join g p) = Inl e \<longrightarrow>
      fst (handleCommand nid h a JoinGameCommand p) = Inl e"
    by (cases "join g p") (simp add: handleCommand_def priv_handleJoinCommand_def)
  have l: "area_game a = Some g \<and> gid = game_id g \<and> fst (leave g p) = Inl e \<longrightarrow>
      fst (handleCommand nid h a (LeaveGameCommand gid) p) = Inl e"
    by (cases "leave g p") (simp add: handleCommand_def priv_handleLeaveCommand_def)
  have m: "area_game a = Some g \<and> gid = game_id g
       \<and> fst (applyMove h g \<lparr>playerID = player_id p, gameID = gid, move = mv\<rparr>) = Inl e \<longrightarrow>
      fst (handleCommand nid h a (GameMoveCommand gid mv) p) = Inl e"
  proof (intro impI, elim conjE)
    assume ag: "area_game a = Some g" and gid: "gid = game_id g"
      and f: "fst (applyMove h g \<lparr>playerID = player_id p, gameID = gid, move = mv\<rparr>) = Inl e"
    obtain h' g' where
      r: "applyMove h g \<lparr>playerID = player_id p, gameID = gid, move = mv\<rparr> = (Inl e, h', g')"
      using f by (metis prod.collapse)
    show "fst (handleCommand nid h a (GameMoveCommand gid mv) p) = Inl e"
      using ag gid r by (simp add: handleCommand_def priv_handleMoveCommand_def)
  qed
  show ?thesis using none mismatch other j l m by blast
qed

theorem handleCommand_failures_witness:
  "area_game (snd playersArea) = None
   \<and> fst (handleCommand ''game-1'' boardHeap (snd playersArea) (LeaveGameCommand ''game-1'') alice)
       = Inl (InvalidParametersError GAME_NOT_IN_PROGRESS_MESSAGE)
   \<and> fst (handleCommand ''game-1'' boardHeap (snd playersArea) (GameMoveCommand ''game-1'' 0) alice)
       = Inl (InvalidParametersError GAME_NOT_IN_PROGRESS_MESSAGE)
   \<and> fst (handleCommand ''game-1'' boardHeap (snd playersArea) (OtherCommand ''ViewingAreaUpdate'') alice)
       = Inl (InvalidParametersError INVALID_COMMAND_MESSAGE)
   \<and> area_game (snd (area_run ''game-1'' playersArea bothJoin)) \<noteq> None
   \<and> fst (handleCommand ''game-2'' (fst (area_run ''game-1'' playersArea bothJoin))
        (snd (area_run ''game-1'' playersArea bothJoin)) (LeaveGameCommand ''game-2'') alice)
       = Inl (InvalidParametersError GAME_ID_MISSMATCH_MESSAGE)
   \<and> fst (handleCommand ''game-2'' (fst (area_run ''game-1'' playersArea bothJoin))
        (snd (area_run ''game-1'' playersArea bothJoin)) (GameMoveCommand ''game-2'' 0) alice)
       = Inl (InvalidParametersError GAME_ID_MISSMATCH_MESSAGE)
   \<and> fst (handleCommand ''game-2'' (fst (area_run ''game-1'' playersArea bothJoin))
        (snd (area_run ''game-1'' playersArea bothJoin)) JoinGameCommand carol)
       = Inl (InvalidParametersError GAME_FULL_MESSAGE)
   \<and> fst (handleCommand ''game-2'' (fst (area_run ''game-1'' playersArea bothJoin))
        (snd (area_run ''game-1'' playersArea bothJoin)) (LeaveGameCommand ''game-1'') carol)
       = Inl (InvalidParametersError PLAYER_NOT_IN_GAME_MESSAGE)
   \<and> fst (handleCommand ''game-2'' (fst (area_run ''game-1'' playersArea bothJoin))
        (snd (area_run ''game-1'' playersArea bothJoin)) (GameMoveCommand ''game-1'' 0) bob)
       = Inl (InvalidParametersError MOVE_NOT_YOUR_TURN_MESSAGE)"
proof -
  let ?none = "snd playersArea"
  let ?h = "fst (area_run ''game-1'' playersArea bothJoin)"
  let ?a = "snd (area_run ''game-1'' playersArea bothJoin)"
  define g where "g = the (area_game ?a)"
  have n: "area_game ?none = None" by code_simp
  have ne: "area_game ?a \<noteq> None" by code_simp
  have s: "area_game ?a = Some g" using ne by (simp add: g_def)
  have i: "''game-2'' \<noteq> game_id g" "''game-1'' = game_id g"
    unfolding g_def by code_simp+
  have j: "fst (join g carol) = Inl (InvalidParametersError GAME_FULL_MESSAGE)"
    unfolding g_def by code_simp
  have l: "fst (leave g carol) = Inl (InvalidParametersError PLAYER_NOT_IN_GAME_MESSAGE)"
    unfolding g_def by code_simp
  have m: "fst (applyMove ?h g \<lparr>playerID = player_id bob, gameID = ''game-1'', move = 0\<rparr>)
             = Inl (InvalidParametersError MOVE_NOT_YOUR_TURN_MESSAGE)"
    unfolding g_def by code_simp
  have w1: "fst (handleCommand ''game-1'' boardHeap ?none (LeaveGameCommand ''game-1'') alice)
              = Inl (InvalidParametersError GAME_NOT_IN_PROGRESS_MESSAGE)
            \<and> fst (handleCommand ''game-1'' boardHeap ?none (GameMoveCommand ''game-1'' 0) alice)
              = Inl (InvalidParametersError GAME_NOT_IN_PROGRESS_MESSAGE)
            \<and> fst (handleCommand ''game-1'' boardHeap ?none (OtherCommand ''ViewingAreaUpdate'') alice)
              = Inl (InvalidParametersError INVALID_COMMAND_MESSAGE)"
    using handleCommand_failures [where a = ?none and nid = "''game-1''" and h = boardHeap
        and gid = "''game-1''" and p = alice and mv = 0 and t = "''ViewingAreaUpdate''"] n
    by blast
  have w2: "fst (handleCommand ''game-2'' ?h ?a (LeaveGameCommand ''game-2'') alice)
              = Inl (InvalidParametersError GAME_ID_MISSMATCH_MESSAGE)
            \<and> fst (handleCommand ''game-2'' ?h ?a (GameMoveCommand ''game-2'' 0) alice)
              = Inl (InvalidParametersError GAME_ID_MISSMATCH_MESSAGE)"
    using handleCommand_failures [where a = ?a and g = g and nid = "''game-2''" and h = ?h
        and gid = "''game-2''" and p = alice and mv = 0] s i(1)
    by blast
  have w3: "fst (handleCommand ''game-2'' ?h ?a JoinGameCommand carol)
              = Inl (InvalidParametersError GAME_FULL_MESSAGE)"
    using handleCommand_failures [where a = ?a and g = g and nid = "''game-2''" and h = ?h
        and p = carol and e = "InvalidParametersError GAME_FULL_MESSAGE"] s j
    by blast
  have w4: "fst (handleCommand ''game-2'' ?h ?a (LeaveGameCommand ''game-1'') carol)
              = Inl (InvalidParametersError PLAYER_NOT_IN_GAME_MESSAGE)"
    using handleCommand_failures [where a = ?a and g = g and nid = "''game-2''" and h = ?h
        and gid = "''game-1''" and p = carol
        and e = "InvalidParametersError PLAYER_NOT_IN_GAME_MESSAGE"] s i(2) l
    by blast
  have w5: "fst (handleCommand ''game-2'' ?h ?a (GameMoveCommand ''game-1'' 0) bob)
              = Inl (InvalidParametersError MOVE_NOT_YOUR_TURN_MESSAGE)"
    using handleCommand_failures [where a = ?a and g = g and nid = "''game-2''" and h = ?h
        and gid = "''game-1''" and p = bob and mv = 0
        and e = "InvalidParametersError MOVE_NOT_YOUR_TURN_MESSAGE"] s i(2) m
    by blast
  show ?thesis using n ne w1 w2 w3 w4 w5 by blast
qed

section \<open>Claim C10: a caller who is in neither seat\<close>

text \<open>
  Claim C10. \<open>applyMove\<close> never checks that the caller belongs to the game: every
  player id other than the holder of X is given the mark O. So when it is O's turn, a
  legal move by an id that holds neither seat is accepted and recorded as an O move,
  and when it completes a line the winner is that foreign id.
\<close>

theorem foreign_player_moves_as_O:
  assumes "state_x g \<noteq> Some (playerID gm)"
    and "state_status g = IN_PROGRESS"
    and "markToMove (moveLog h g) = PieceO"
    and "\<not> cellOccupied (moveLog h g) (h (move gm))"
    and "distinctCells (moveLog h g)"
  shows "deducedPiece g gm = PieceO
         \<and> (\<exists>h' g'. applyMove h g gm = (Inr (), h', g')
              \<and> moveLog h' g' = moveLog h g @ [(h (move gm))\<lparr>gamePiece := PieceO\<rparr>]
              \<and> (hasLine (moveLog h' g') PieceO \<longrightarrow>
                    state_status g' = OVER \<and> state_winner g' = Some (playerID gm)))"
proof -
  have p: "deducedPiece g gm = PieceO" using assms(1) by (simp add: deducedPiece_def)
  have ok: "fst (applyMove h g gm) = Inr ()"
    unfolding applyMove_outcome using assms(2,3,4) p by simp
  obtain h' g' where r: "applyMove h g gm = (Inr (), h', g')"
    using ok by (metis prod.collapse)
  have log: "moveLog h' g' = moveLog h g @ [(h (move gm))\<lparr>gamePiece := PieceO\<rparr>]"
    using accepted_log [OF ok] r p by simp
  have g': "g' = snd (snd (applyMove h g gm))" and h': "h' = fst (snd (applyMove h g gm))"
    using r by simp_all
  let ?hw = "h(move gm := (h (move gm))\<lparr>gamePiece := PieceO\<rparr>)"
  let ?g1 = "g\<lparr>state_moves := state_moves g @ [move gm]\<rparr>"
  have log1: "moveLog ?hw ?g1 = moveLog h g @ [(h (move gm))\<lparr>gamePiece := PieceO\<rparr>]"
    using accepted_facts(4) [OF ok] by (simp add: moveLog_def)
  have dist: "distinctCells (moveLog ?hw ?g1)"
    unfolding log1 distinctCells_snoc using assms(4,5)
    by (simp add: cellOccupied_def cell_piece_update)
  have won: "priv_playerHasWon ?hw ?g1 gm
               = hasLine (moveLog h g @ [(h (move gm))\<lparr>gamePiece := PieceO\<rparr>]) PieceO"
    unfolding playerHasWon_hasLine [OF dist] log1 by simp
  have "hasLine (moveLog h' g') PieceO \<longrightarrow>
          state_status g' = OVER \<and> state_winner g' = Some (playerID gm)"
    unfolding log unfolding g' applyMove_accepted [OF ok] p Let_def won by simp
  then show ?thesis using p r log by blast
qed

theorem foreign_player_moves_as_O_witness:
  "state_x (snd foreignState) \<noteq> Some ''id-carol''
   \<and> state_o (snd foreignState) \<noteq> Some ''id-carol''
   \<and> carol \<notin> set (players (snd foreignState))
   \<and> fst (applyMove (fst foreignState) (snd foreignState) (moveOf carol 6)) = Inr ()
   \<and> state_status (snd (snd (applyMove (fst foreignState) (snd foreignState) (moveOf carol 6)))) = OVER
   \<and> state_winner (snd (snd (applyMove (fst foreignState) (snd foreignState) (moveOf carol 6))))
       = Some ''id-carol''"
proof -
  let ?h = "fst foreignState" and ?g = "snd foreignState" and ?gm = "moveOf carol 6"
  have pid: "playerID ?gm = ''id-carol''" by code_simp
  have a: "state_x ?g \<noteq> Some (playerID ?gm)" by code_simp
  have b: "state_status ?g = IN_PROGRESS" by code_simp
  have c: "markToMove (moveLog ?h ?g) = PieceO" by code_simp
  have d: "\<not> cellOccupied (moveLog ?h ?g) (?h (move ?gm))" by code_simp
  have e: "distinctCells (moveLog ?h ?g)" by code_simp
  have o: "state_o ?g \<noteq> Some ''id-carol''" by code_simp
  have np: "carol \<notin> set (players ?g)" by code_simp
  have line: "hasLine (moveLog ?h ?g @ [(?h (move ?gm))\<lparr>gamePiece := PieceO\<rparr>]) PieceO"
    by code_simp
  from foreign_player_moves_as_O [OF a b c d e]
  obtain h' g' where r: "applyMove ?h ?g ?gm = (Inr (), h', g')"
    and log: "moveLog h' g' = moveLog ?h ?g @ [(?h (move ?gm))\<lparr>gamePiece := PieceO\<rparr>]"
    and win: "hasLine (moveLog h' g') PieceO \<longrightarrow>
                state_status g' = OVER \<and> state_winner g' = Some (playerID ?gm)"
    by blast
  have "state_status g' = OVER \<and> state_winner g' = Some ''id-carol''"
    using win line unfolding log pid by simp
  then show ?thesis using r a o np unfolding pid by simp
qed

end
